theory Spec2Isabelle
  imports Complex_Main "HOL-Library.Char_ord" "HOL-Library.List_Lexorder"
    "HOL-Library.Product_Lexorder"
begin

section \<open>Errors, time and rows\<close>

text \<open>
  The Go functions return \<open>(value, error)\<close>; the model returns \<open>error + value\<close>.
  \<open>ErrConstraint\<close> is the store's raw unique-constraint violation, before
  \<open>sqlx.TypedError\<close> classifies it. Input/output failures of the driver are outside
  the model: a statement fails only by violating a constraint. \<open>PanicNilPointer\<close>
  stands for the panic of Go on a nil pointer.
\<close>

datatype error = ErrNotFound | ErrKeyType | ErrConstraint | PanicNilPointer

text \<open>
  \<open>time.Now()\<close> is an effect: every function below takes one instant per call of
  \<open>time.Now()\<close> it makes, in the order of the calls. An instant is a number of
  nanoseconds since the epoch, a duration a number of nanoseconds.
\<close>

type_synonym Time = int
type_synonym Duration = int

definition UnixMilli :: "Time \<Rightarrow> int" where
  "UnixMilli t = t div 1000000"

definition Add :: "Time \<Rightarrow> Duration \<Rightarrow> Time" where
  "Add t d = t + d"

type_synonym TypeID = int

text \<open>
  Modelled from the spec: \<open>core.TypeSortedSet\<close> and \<open>core.InitialVersion\<close> are
  declared in the package \<open>core\<close>, outside these sources. The spec says that the sorted
  set has its own tag and that a fresh record has an initial version; no theorem
  depends on the two numbers.
\<close>

definition TypeSortedSet :: TypeID where
  "TypeSortedSet = 5"

definition InitialVersion :: int where
  "InitialVersion = 1"

text \<open>\<open>core.Key\<close>, as \<open>rows.Scan\<close> fills it; \<open>ETime\<close> is a nullable column.\<close>

record Key =
  ID :: int
  Key :: string
  Type :: TypeID
  Version :: int
  ETime :: "int option"
  MTime :: int

text \<open>Go's zero value \<open>core.Key{}\<close>, returned by \<open>Get\<close> on \<open>sql.ErrNoRows\<close>.\<close>

definition Key0 :: Key where
  "Key0 = \<lparr>ID = 0, Key = [], Type = 0, Version = 0, ETime = None, MTime = 0\<rparr>"

text \<open>
  Modelled from the spec: \<open>Key.Exists\<close> is declared in the package \<open>core\<close>, outside
  these sources. The spec has \<open>get\<close> return the empty record for an absent or expired
  name and \<open>rename\<close> fail with not-found when the old name is absent.
\<close>

definition Exists :: "Key \<Rightarrow> bool" where
  "Exists k \<longleftrightarrow> k \<noteq> Key0"

text \<open>
  A row of \<open>rzset\<close> and an item of a result. An element is a byte string, ordered
  byte by byte, a shorter string before its extensions. A score is a \<open>float64\<close> in the
  source and a real number here: the comparisons of the statements are those of the
  reals on finite scores, and no theorem below depends on the value of a sum.
\<close>

record zrow =
  key_id :: int
  elem :: string
  score :: real

record SetItem =
  Elem :: string
  Score :: real

text \<open>
  The store as a transaction sees it: the two tables, each a list of rows in the order
  a scan of the table visits them, and the number of statements executed so far, which
  makes a round trip to the store observable.
\<close>

record store =
  rkey :: "Key list"
  rzset :: "zrow list"
  nstmt :: nat

definition stmt :: "store \<Rightarrow> store" where
  "stmt s = s\<lparr>nstmt := Suc (nstmt s)\<rparr>"

text \<open>
  Modelled from the spec: the schema is declared outside these sources. The spec
  gives \<open>keys(id INTEGER PK, key TEXT UNIQUE, ...)\<close> and
  \<open>zset(key_id FK, elem, score, UNIQUE(key_id, elem))\<close>, and says that identities are
  assigned monotonically and that a member row always references a key record. A table
  with an integer primary key is kept in ascending order of that key, and identities
  are positive. The order in which a statement without \<open>order by\<close> returns rows is not
  that of the list: see \<open>sqlScan\<close>.
\<close>

definition wf :: "store \<Rightarrow> bool" where
  "wf s \<longleftrightarrow>
     sorted_wrt (<) (map ID (rkey s)) \<and>
     distinct (map Key (rkey s)) \<and>
     (\<forall>k \<in> set (rkey s). 0 < ID k) \<and>
     (\<forall>z \<in> set (rzset s). key_id z \<in> set (map ID (rkey s))) \<and>
     distinct (map (\<lambda>z. (key_id z, elem z)) (rzset s))"

text \<open>The filter \<open>(etime is null or etime > :now)\<close> of every statement.\<close>

definition live :: "int \<Rightarrow> Key \<Rightarrow> bool" where
  "live now k = (case ETime k of None \<Rightarrow> True | Some e \<Rightarrow> now < e)"

text \<open>
  \<open>limit :count\<close> and \<open>limit :offset, :count\<close>. A negative count puts no bound on the
  number of rows (\<open>rangeScore\<close> relies on it with \<open>limit :offset, -1\<close>), a negative
  offset skips nothing.
\<close>

definition sql_limit :: "int \<Rightarrow> 'a list \<Rightarrow> 'a list" where
  "sql_limit n xs = (if n < 0 then xs else take (nat n) xs)"

definition sql_limit_offset :: "int \<Rightarrow> int \<Rightarrow> 'a list \<Rightarrow> 'a list" where
  "sql_limit_offset off n xs = sql_limit n (drop (nat off) xs)"

text \<open>\<open>order by\<close>, by insertion; the argument says when a row may stand before another.\<close>

fun insert_by :: "('a \<Rightarrow> 'a \<Rightarrow> bool) \<Rightarrow> 'a \<Rightarrow> 'a list \<Rightarrow> 'a list" where
  "insert_by le x [] = [x]"
| "insert_by le x (y # ys) = (if le x y then x # y # ys else y # insert_by le x ys)"

fun order_by :: "('a \<Rightarrow> 'a \<Rightarrow> bool) \<Rightarrow> 'a list \<Rightarrow> 'a list" where
  "order_by le [] = []"
| "order_by le (x # xs) = insert_by le x (order_by le xs)"

text \<open>
  Modelled from the spec: the foreign key of \<open>rzset\<close> is declared with the schema,
  outside these sources; the spec says that the deletion of a key record cascades to
  its members. \<open>delete_where\<close> deletes the key rows that satisfy a condition; the
  result is the new store and the number of key rows deleted (\<open>RowsAffected\<close>).
\<close>

definition delete_where :: "(Key \<Rightarrow> bool) \<Rightarrow> store \<Rightarrow> store \<times> nat" where
  "delete_where P s =
     (let gone = filter P (rkey s)
      in (s\<lparr>rkey := filter (\<lambda>k. \<not> P k) (rkey s),
            rzset := filter (\<lambda>z. key_id z \<notin> set (map ID gone)) (rzset s)\<rparr>,
          length gone))"

section \<open>The key registry: internal/rkey/tx.go\<close>

text \<open>
  \<open>sqlGet\<close>: \<open>select id, key, type, version, etime, mtime from rkey
  where key = ? and (etime is null or etime > ?)\<close>
\<close>

definition sqlGet :: "store \<Rightarrow> string \<Rightarrow> int \<Rightarrow> Key list" where
  "sqlGet s key now = filter (\<lambda>k. Key k = key \<and> live now k) (rkey s)"

text \<open>\<open>Get\<close>: \<open>QueryRow\<close> reads the first row; no row is \<open>sql.ErrNoRows\<close>.\<close>

definition Get :: "store \<Rightarrow> Time \<Rightarrow> string \<Rightarrow> (error + Key) \<times> store" where
  "Get s t key =
     (let now = UnixMilli t
      in case sqlGet s key now of
           [] \<Rightarrow> (Inr Key0, stmt s)
         | k # _ \<Rightarrow> (Inr k, stmt s))"

text \<open>
  \<open>sqlScan\<close>: \<open>select ... from rkey where id > :cursor and key glob :pattern
  and (etime is null or etime > :now) limit :count\<close>. The statement has no
  \<open>order by\<close>: the rows come in the order in which the store visits them, and \<open>limit\<close>
  keeps the first of them. The \<open>glob\<close> operator and the path by which the store
  visits the rows of \<open>rkey\<close> for this statement belong to the store and are parameters.
\<close>

definition sqlScan ::
  "(string \<Rightarrow> string \<Rightarrow> bool) \<Rightarrow> (Key list \<Rightarrow> Key list) \<Rightarrow> store \<Rightarrow> int \<Rightarrow> string \<Rightarrow> int
     \<Rightarrow> int \<Rightarrow> Key list" where
  "sqlScan glob path s cursor pattern now n =
     sql_limit n
       (filter (\<lambda>k. cursor < ID k \<and> glob pattern (Key k) \<and> live now k) (path (rkey s)))"

text \<open>
  Modelled from the spec: the schema, declared outside these sources, gives the store
  two paths through \<open>rkey\<close>: the table itself, by the integer primary key, and the index
  that keeps the names unique, by the name.
\<close>

definition rowid_scan :: "Key list \<Rightarrow> Key list" where
  "rowid_scan rows = order_by (\<lambda>x y. ID x \<le> ID y) rows"

definition key_index_scan :: "Key list \<Rightarrow> Key list" where
  "key_index_scan rows = order_by (\<lambda>x y. Key x \<le> Key y) rows"

definition scanPageSize :: int where
  "scanPageSize = 10"

record ScanResult =
  Cursor :: int
  Keys :: "Key list"

text \<open>The loop of \<open>Tx.Scan\<close> that selects the maximum ID, starting from 0.\<close>

fun maxID_loop :: "Key list \<Rightarrow> int \<Rightarrow> int" where
  "maxID_loop [] maxID = maxID"
| "maxID_loop (key # keys) maxID =
     maxID_loop keys (if maxID < ID key then ID key else maxID)"

definition Tx_Scan ::
  "(string \<Rightarrow> string \<Rightarrow> bool) \<Rightarrow> (Key list \<Rightarrow> Key list) \<Rightarrow> store \<Rightarrow> Time \<Rightarrow> int \<Rightarrow> string
     \<Rightarrow> int \<Rightarrow> (error + ScanResult) \<times> store" where
  "Tx_Scan glob path s t cursor pattern pageSize =
     (let now = UnixMilli t;
          pageSize = (if pageSize = 0 then scanPageSize else pageSize);
          keys = sqlScan glob path s cursor pattern now pageSize;
          maxID = maxID_loop keys 0
      in (Inr \<lparr>Cursor = maxID, Keys = keys\<rparr>, stmt s))"

text \<open>
  \<open>sqlExpire\<close>: \<open>update rkey set etime = :at where key = :key and (etime is null or
  etime > :now)\<close>; \<open>sqlPersist\<close> sets \<open>etime = null\<close> on the same rows. Both
  functions return whether a row was affected.
\<close>

definition update_etime :: "string \<Rightarrow> int \<Rightarrow> int option \<Rightarrow> store \<Rightarrow> store \<times> nat" where
  "update_etime key now e s =
     (s\<lparr>rkey := map (\<lambda>k. if Key k = key \<and> live now k then k\<lparr>ETime := e\<rparr> else k) (rkey s)\<rparr>,
      length (filter (\<lambda>k. Key k = key \<and> live now k) (rkey s)))"

definition Tx_ExpireAt :: "store \<Rightarrow> Time \<Rightarrow> string \<Rightarrow> Time \<Rightarrow> (error + bool) \<times> store" where
  "Tx_ExpireAt s t key at' =
     (let now = UnixMilli t;
          (s', count) = update_etime key now (Some (UnixMilli at')) s
      in (Inr (0 < count), stmt s'))"

definition Tx_Expire ::
  "store \<Rightarrow> Time \<Rightarrow> Time \<Rightarrow> string \<Rightarrow> Duration \<Rightarrow> (error + bool) \<times> store" where
  "Tx_Expire s t0 t1 key ttl = (let at' = Add t0 ttl in Tx_ExpireAt s t1 key at')"

definition Tx_Persist :: "store \<Rightarrow> Time \<Rightarrow> string \<Rightarrow> (error + bool) \<times> store" where
  "Tx_Persist s t key =
     (let now = UnixMilli t;
          (s', count) = update_etime key now None s
      in (Inr (0 < count), stmt s'))"

text \<open>
  Modelled from the spec: \<open>sqlx.ExpandIn\<close> is declared in the package \<open>sqlx\<close>, outside
  these sources; the spec has it expand the list into one slot per value, so that
  \<open>key in (:keys)\<close> is membership in the list. \<open>sqlDelete\<close> is \<open>delete from rkey where
  key in (:keys) and (etime is null or etime > :now)\<close>, and \<open>sqlDeleteType\<close> adds
  \<open>and type = :type\<close>.
\<close>

definition Delete :: "store \<Rightarrow> Time \<Rightarrow> string list \<Rightarrow> (error + int) \<times> store" where
  "Delete s t keys =
     (let now = UnixMilli t;
          (s', affectedCount) = delete_where (\<lambda>k. Key k \<in> set keys \<and> live now k) s
      in (Inr (int affectedCount), stmt s'))"

definition DeleteType ::
  "store \<Rightarrow> Time \<Rightarrow> TypeID \<Rightarrow> string list \<Rightarrow> (error + int) \<times> store" where
  "DeleteType s t typ keys =
     (let now = UnixMilli t;
          (s', affectedCount) =
             delete_where (\<lambda>k. Key k \<in> set keys \<and> live now k \<and> Type k = typ) s
      in (Inr (int affectedCount), stmt s'))"

text \<open>
  \<open>sqlRename\<close>: \<open>update or replace rkey set id = old.id, key = :new_key,
  type = old.type, version = old.version+1, etime = old.etime, mtime = :now
  from (select ... from rkey where key = :key and (etime is null or etime > :now)) as old
  where rkey.key = :key and (rkey.etime is null or rkey.etime > :now)\<close>.
  The rows to update and the rows of \<open>old\<close> are the live rows named \<open>:key\<close>, of which
  there is at most one; \<open>or replace\<close> deletes every other row that holds the new name
  (with its members, by the cascade) and the row is written in place.
\<close>

definition sqlRename :: "store \<Rightarrow> string \<Rightarrow> string \<Rightarrow> int \<Rightarrow> store" where
  "sqlRename s key new_key now =
     (case sqlGet s key now of
        [] \<Rightarrow> s
      | old # _ \<Rightarrow>
          (let (s', _) = delete_where
                           (\<lambda>k. Key k = new_key \<and> \<not> (Key k = key \<and> live now k)) s
           in s'\<lparr>rkey := map (\<lambda>k. if Key k = key \<and> live now k
                                  then k\<lparr>ID := ID old, Key := new_key, Type := Type old,
                                         Version := Version old + 1, ETime := ETime old,
                                         MTime := now\<rparr>
                                  else k) (rkey s')\<rparr>))"

definition Tx_Rename ::
  "store \<Rightarrow> Time \<Rightarrow> Time \<Rightarrow> Time \<Rightarrow> string \<Rightarrow> string \<Rightarrow> error option \<times> store" where
  "Tx_Rename s t1 t2 t3 key newKey =
     (case Get s t1 key of
        (Inl err, s1) \<Rightarrow> (Some err, s1)
      | (Inr oldK, s1) \<Rightarrow>
          if \<not> Exists oldK then (Some ErrNotFound, s1)
          else if key = newKey then (None, s1)
          else (case Delete s1 t2 [newKey] of
                  (Inl err, s2) \<Rightarrow> (Some err, s2)
                | (Inr _, s2) \<Rightarrow>
                    (let now = UnixMilli t3
                     in (None, stmt (sqlRename s2 key newKey now)))))"

text \<open>
  The \<open>Scanner\<close>. Its field \<open>db\<close> points to the transaction; here the store is passed
  to \<open>Scanner_Scan\<close> and returned by it, with the two parameters of \<open>sqlScan\<close>.
  \<open>err\<close> is \<open>None\<close> for \<open>nil\<close>.
\<close>

record Scanner =
  cursor :: int
  pattern :: string
  pageSize :: int
  index :: nat
  cur :: Key
  keys :: "Key list"
  err :: "error option"

definition newScanner :: "string \<Rightarrow> int \<Rightarrow> Scanner" where
  "newScanner pat n =
     \<lparr>cursor = 0, pattern = pat,
      pageSize = (if n = 0 then scanPageSize else n),
      index = 0, cur = Key0, keys = [], err = None\<rparr>"

text \<open>
  \<open>Scanner.Scan\<close> returns the boolean, the scanner and the store. \<open>time.Now()\<close> is
  called by \<open>Tx.Scan\<close> only, so \<open>t\<close> is read only when a page is fetched. The index
  read at the end is in range on both paths.
\<close>

definition Scanner_advance :: "Scanner \<Rightarrow> Scanner" where
  "Scanner_advance sc =
     sc\<lparr>cur := Scanner.keys sc ! index sc, index := Suc (index sc)\<rparr>"

definition Scanner_Scan ::
  "(string \<Rightarrow> string \<Rightarrow> bool) \<Rightarrow> (Key list \<Rightarrow> Key list) \<Rightarrow> Scanner \<Rightarrow> store \<Rightarrow> Time
     \<Rightarrow> bool \<times> Scanner \<times> store" where
  "Scanner_Scan glob path sc s t =
     (if length (Scanner.keys sc) \<le> index sc then
        (case Tx_Scan glob path s t (cursor sc) (pattern sc) (pageSize sc) of
           (Inl e, s') \<Rightarrow> (False, sc\<lparr>err := Some e\<rparr>, s')
         | (Inr out, s') \<Rightarrow>
             (let sc' = sc\<lparr>cursor := Cursor out, keys := Keys out, index := 0\<rparr>
              in if length (Scanner.keys sc') = 0 then (False, sc', s')
                 else (True, Scanner_advance sc', s')))
      else (True, Scanner_advance sc, s))"

section \<open>The sorted sets: the shared parts of the statements\<close>

text \<open>
  \<open>from rzset join rkey on key_id = rkey.id and (etime is null or etime > :now)
  where <condition on key>\<close>: the member rows of the live keys whose name
  satisfies the condition.
\<close>

definition zset_join :: "store \<Rightarrow> int \<Rightarrow> (string \<Rightarrow> bool) \<Rightarrow> zrow list" where
  "zset_join s now P =
     [z. z \<leftarrow> rzset s, k \<leftarrow> rkey s, key_id z = ID k \<and> live now k \<and> P (Key k)]"

text \<open>
  Modelled from the spec: the tokens \<open>sqlx.Sum\<close>, \<open>sqlx.Min\<close>, \<open>sqlx.Max\<close>,
  \<open>sqlx.Asc\<close> and \<open>sqlx.Desc\<close> are declared in the package \<open>sqlx\<close>. The spec makes
  the aggregate a closed enumeration whose token replaces both occurrences of \<open>sum\<close>
  in the statement, and the direction a token that replaces every \<open>asc\<close>.
\<close>

datatype Aggregate = sqlx_Sum | sqlx_Min | sqlx_Max

datatype SortDir = sqlx_Asc | sqlx_Desc

text \<open>The aggregate of the scores of a group; a group is never empty.\<close>

fun agg :: "Aggregate \<Rightarrow> real list \<Rightarrow> real" where
  "agg a [] = 0"
| "agg sqlx_Sum (x # xs) = sum_list (x # xs)"
| "agg sqlx_Min (x # xs) = fold min xs x"
| "agg sqlx_Max (x # xs) = fold max xs x"

definition dir_le :: "SortDir \<Rightarrow> 'a::linorder \<Rightarrow> 'a \<Rightarrow> bool" where
  "dir_le d a b = (case d of sqlx_Asc \<Rightarrow> a \<le> b | sqlx_Desc \<Rightarrow> b \<le> a)"

text \<open>\<open>group by elem\<close>: one group per element, in the order of first occurrence.\<close>

definition group_by_elem :: "zrow list \<Rightarrow> (string \<times> zrow list) list" where
  "group_by_elem rows =
     map (\<lambda>e. (e, filter (\<lambda>z. elem z = e) rows)) (remdups (map elem rows))"

text \<open>
  \<open>select elem, sum(score) as score ... group by elem order by sum(score), elem\<close>
  over groups already filtered, with the aggregate in the place of \<open>sum\<close>.
\<close>

definition select_agg :: "Aggregate \<Rightarrow> (string \<times> zrow list) list \<Rightarrow> SetItem list" where
  "select_agg a groups =
     order_by (\<lambda>x y. (Score x, Elem x) \<le> (Score y, Elem y))
       (map (\<lambda>(e, g). \<lparr>Elem = e, Score = agg a (map score g)\<rparr>) groups)"

text \<open>
  Modelled from the spec: the schema's constraints on the two inserts. A key row gets
  the identity after the greatest one in the table and fails on a name already in the
  table, whatever its expiry; member rows fail on a pair \<open>(key_id, elem)\<close> already
  there. The results are the new store with the identity, and with the number of rows.
\<close>

definition next_id :: "Key list \<Rightarrow> int" where
  "next_id rows = (if rows = [] then 1 else Max (set (map ID rows)) + 1)"

definition insert_rkey ::
  "store \<Rightarrow> string \<Rightarrow> TypeID \<Rightarrow> int \<Rightarrow> int \<Rightarrow> error + store \<times> int" where
  "insert_rkey s name typ version mtime =
     (if name \<in> set (map Key (rkey s)) then Inl ErrConstraint
      else (let i = next_id (rkey s)
            in Inr (s\<lparr>rkey := rkey s @ [\<lparr>ID = i, Key = name, Type = typ, Version = version,
                                          ETime = None, MTime = mtime\<rparr>]\<rparr>, i)))"

definition insert_rzset :: "store \<Rightarrow> int \<Rightarrow> SetItem list \<Rightarrow> error + store \<times> nat" where
  "insert_rzset s keyID items =
     (let rows = map (\<lambda>it. \<lparr>key_id = keyID, elem = Elem it, score = Score it\<rparr>) items
      in if distinct (map (\<lambda>z. (key_id z, elem z)) (rzset s @ rows))
         then Inr (s\<lparr>rzset := rzset s @ rows\<rparr>, length rows)
         else Inl ErrConstraint)"

text \<open>
  Modelled from the spec: \<open>sqlx.TypedError\<close> is declared in the package \<open>sqlx\<close>, outside
  these sources; the spec has it convert a unique-constraint violation into the
  wrong-type error.
\<close>

definition TypedError :: "error \<Rightarrow> error" where
  "TypedError e = (if e = ErrConstraint then ErrKeyType else e)"

text \<open>
  A nil pointer is \<open>None\<close>. The handles \<open>db\<close> and \<open>tx\<close> of a command point to the one
  store, which is passed to the functions and returned by them.
\<close>

datatype handle = Handle

text \<open>
  Modelled from the spec: \<open>DB.Update\<close> is declared in another file of the package. The
  spec has it run the function in a fresh write transaction, commit on a nil error and roll
  back otherwise. A rollback restores the tables; the statements were still executed.
\<close>

definition DB_Update ::
  "(store \<Rightarrow> (error + 'a) \<times> store) \<Rightarrow> store \<Rightarrow> (error + 'a) \<times> store" where
  "DB_Update fn s =
     (case fn s of
        (Inl e, s') \<Rightarrow> (Inl e, s\<lparr>nstmt := nstmt s'\<rparr>)
      | (Inr v, s') \<Rightarrow> (Inr v, s'))"

section \<open>Intersection: InterCmd\<close>

record InterCmd =
  db :: "handle option"
  tx :: "handle option"
  dest :: string
  keys :: "string list"
  aggregate :: Aggregate

definition InterCmd_Dest :: "InterCmd \<Rightarrow> string \<Rightarrow> InterCmd" where
  "InterCmd_Dest c d = c\<lparr>InterCmd.dest := d\<rparr>"

definition InterCmd_Sum :: "InterCmd \<Rightarrow> InterCmd" where
  "InterCmd_Sum c = c\<lparr>InterCmd.aggregate := sqlx_Sum\<rparr>"

definition InterCmd_Min :: "InterCmd \<Rightarrow> InterCmd" where
  "InterCmd_Min c = c\<lparr>InterCmd.aggregate := sqlx_Min\<rparr>"

definition InterCmd_Max :: "InterCmd \<Rightarrow> InterCmd" where
  "InterCmd_Max c = c\<lparr>InterCmd.aggregate := sqlx_Max\<rparr>"

text \<open>
  \<open>sqlInter\<close>: \<open>select elem, sum(score) as score from rzset join rkey on
  key_id = rkey.id and (etime is null or etime > :now) where key in (:keys)
  group by elem having count(distinct key_id) = :nkeys order by sum(score), elem\<close>
\<close>

definition sqlInter ::
  "Aggregate \<Rightarrow> store \<Rightarrow> int \<Rightarrow> string list \<Rightarrow> int \<Rightarrow> SetItem list" where
  "sqlInter a s now ks nkeys =
     select_agg a
       (filter (\<lambda>(e, g). int (length (remdups (map key_id g))) = nkeys)
          (group_by_elem (zset_join s now (\<lambda>name. name \<in> set ks))))"

text \<open>
  \<open>sqlInterStore1\<close>: \<open>insert into rkey (key, type, version, mtime) values (...)
  returning id\<close>; \<open>sqlInterStore2\<close>: \<open>insert into rzset (key_id, elem, score)
  select :key_id, elem, sum(score) as score\<close> followed by the rest of \<open>sqlInter\<close>.
\<close>

definition sqlInterStore1 ::
  "store \<Rightarrow> string \<Rightarrow> TypeID \<Rightarrow> int \<Rightarrow> int \<Rightarrow> error + store \<times> int" where
  "sqlInterStore1 s name typ version mtime = insert_rkey s name typ version mtime"

definition sqlInterStore2 ::
  "Aggregate \<Rightarrow> store \<Rightarrow> int \<Rightarrow> int \<Rightarrow> string list \<Rightarrow> int \<Rightarrow> error + store \<times> nat" where
  "sqlInterStore2 a s keyID now ks nkeys =
     insert_rzset s keyID (sqlInter a s now ks nkeys)"

definition InterCmd_inter :: "InterCmd \<Rightarrow> store \<Rightarrow> Time \<Rightarrow> (error + SetItem list) \<times> store" where
  "InterCmd_inter c s t =
     (let now = UnixMilli t;
          items = sqlInter (InterCmd.aggregate c) s now (InterCmd.keys c)
                    (int (length (InterCmd.keys c)))
      in (Inr items, stmt s))"

definition InterCmd_store :: "InterCmd \<Rightarrow> store \<Rightarrow> Time \<Rightarrow> Time \<Rightarrow> (error + int) \<times> store" where
  "InterCmd_store c s t1 t2 =
     (case DeleteType s t1 TypeSortedSet [InterCmd.dest c] of
        (Inl e, s1) \<Rightarrow> (Inl e, s1)
      | (Inr _, s1) \<Rightarrow>
          (let now = UnixMilli t2
           in case sqlInterStore1 s1 (InterCmd.dest c) TypeSortedSet InitialVersion now of
                Inl e \<Rightarrow> (Inl (TypedError e), stmt s1)
              | Inr (s2, keyID) \<Rightarrow>
                  (case sqlInterStore2 (InterCmd.aggregate c) (stmt s2) keyID now
                          (InterCmd.keys c) (int (length (InterCmd.keys c))) of
                     Inl e \<Rightarrow> (Inl e, stmt (stmt s2))
                   | Inr (s3, n) \<Rightarrow> (Inr (int n), stmt s3))))"

definition InterCmd_Run :: "InterCmd \<Rightarrow> store \<Rightarrow> Time \<Rightarrow> (error + SetItem list) \<times> store" where
  "InterCmd_Run c s t =
     (if InterCmd.db c \<noteq> None then InterCmd_inter c s t
      else if InterCmd.tx c \<noteq> None then InterCmd_inter c s t
      else (Inr [], s))"

definition InterCmd_Store :: "InterCmd \<Rightarrow> store \<Rightarrow> Time \<Rightarrow> Time \<Rightarrow> (error + int) \<times> store" where
  "InterCmd_Store c s t1 t2 =
     (if InterCmd.db c \<noteq> None then DB_Update (\<lambda>s'. InterCmd_store c s' t1 t2) s
      else if InterCmd.tx c \<noteq> None then InterCmd_store c s t1 t2
      else (Inr 0, s))"

section \<open>Ranges: RangeCmd\<close>

record byRank =
  start :: int
  stop :: int

record byScore =
  start :: real
  stop :: real

text \<open>The field \<open>tx\<close> of the command is the store passed to the functions.\<close>

record RangeCmd =
  key :: string
  byRank :: "byRank option"
  byScore :: "byScore option"
  sortDir :: SortDir
  offset :: int
  count :: int

text \<open>
  \<open>sqlRangeRank\<close>: \<open>with ranked as (select elem, score, (row_number() over w - 1) as
  rank from rzset join rkey on key_id = rkey.id and (etime is null or etime > :now)
  where key = :key window w as (partition by key_id order by score asc, elem asc))
  select elem, score from ranked where rank between :start and :stop
  order by rank asc, elem asc\<close>, with the direction in the place of each of the
  four \<open>asc\<close>.
\<close>

definition sqlRangeRank ::
  "SortDir \<Rightarrow> store \<Rightarrow> int \<Rightarrow> string \<Rightarrow> int \<Rightarrow> int \<Rightarrow> SetItem list" where
  "sqlRangeRank d s now name lo hi =
     (let rows = zset_join s now (\<lambda>n. n = name);
          ranked = concat (map (\<lambda>p.
                      (let w = order_by (\<lambda>x y. dir_le d (score x, elem x) (score y, elem y))
                                 (filter (\<lambda>z. key_id z = p) rows)
                       in zip w (map int [0..<length w])))
                     (remdups (map key_id rows)));
          sel = filter (\<lambda>(z, rank). lo \<le> rank \<and> rank \<le> hi) ranked
      in map (\<lambda>(z, rank). \<lparr>Elem = elem z, Score = score z\<rparr>)
           (order_by (\<lambda>(x, rx) (y, ry). dir_le d (rx, elem x) (ry, elem y)) sel))"

text \<open>
  \<open>sqlRangeScore\<close>: \<open>select elem, score from rzset join rkey on key_id = rkey.id and
  (etime is null or etime > :now) where key = :key and score between :start and :stop
  order by score asc, elem asc\<close>, with the direction in the place of each \<open>asc\<close>.
\<close>

definition sqlRangeScore ::
  "SortDir \<Rightarrow> store \<Rightarrow> int \<Rightarrow> string \<Rightarrow> real \<Rightarrow> real \<Rightarrow> SetItem list" where
  "sqlRangeScore d s now name lo hi =
     map (\<lambda>z. \<lparr>Elem = elem z, Score = score z\<rparr>)
       (order_by (\<lambda>x y. dir_le d (score x, elem x) (score y, elem y))
          (filter (\<lambda>z. lo \<le> score z \<and> score z \<le> hi) (zset_join s now (\<lambda>n. n = name))))"

definition RangeCmd_rangeRank ::
  "RangeCmd \<Rightarrow> store \<Rightarrow> Time \<Rightarrow> (error + SetItem list) \<times> store" where
  "RangeCmd_rangeRank c s t =
     (case byRank c of
        None \<Rightarrow> (Inl PanicNilPointer, s)
      | Some r \<Rightarrow>
          if byRank.start r < 0 \<or> byRank.stop r < 0 then (Inr [], s)
          else (Inr (sqlRangeRank (sortDir c) s (UnixMilli t) (key c)
                       (byRank.start r) (byRank.stop r)), stmt s))"

text \<open>
  The clause that \<open>rangeScore\<close> appends to the statement: \<open>limit :offset, :count\<close>,
  \<open>limit :count\<close>, \<open>limit :offset, -1\<close> or nothing.
\<close>

datatype limit_clause = LimitOffsetCount int int | LimitCount int | NoLimit

fun apply_limit :: "limit_clause \<Rightarrow> 'a list \<Rightarrow> 'a list" where
  "apply_limit (LimitOffsetCount off n) xs = sql_limit_offset off n xs"
| "apply_limit (LimitCount n) xs = sql_limit n xs"
| "apply_limit NoLimit xs = xs"

definition RangeCmd_rangeScore ::
  "RangeCmd \<Rightarrow> store \<Rightarrow> Time \<Rightarrow> (error + SetItem list) \<times> store" where
  "RangeCmd_rangeScore c s t =
     (case byScore c of
        None \<Rightarrow> (Inl PanicNilPointer, s)
      | Some r \<Rightarrow>
          (let clause = (if 0 < offset c \<and> 0 < count c
                         then LimitOffsetCount (offset c) (count c)
                         else if 0 < count c then LimitCount (count c)
                         else if 0 < offset c then LimitOffsetCount (offset c) (- 1)
                         else NoLimit)
           in (Inr (apply_limit clause
                      (sqlRangeScore (sortDir c) s (UnixMilli t) (key c)
                         (byScore.start r) (byScore.stop r))), stmt s)))"

definition RangeCmd_Run :: "RangeCmd \<Rightarrow> store \<Rightarrow> Time \<Rightarrow> (error + SetItem list) \<times> store" where
  "RangeCmd_Run c s t =
     (if byRank c \<noteq> None then RangeCmd_rangeRank c s t
      else if byScore c \<noteq> None then RangeCmd_rangeScore c s t
      else (Inr [], s))"

section \<open>Union: UnionCmd\<close>

record UnionCmd =
  db :: "handle option"
  tx :: "handle option"
  dest :: string
  keys :: "string list"
  aggregate :: Aggregate

definition UnionCmd_Dest :: "UnionCmd \<Rightarrow> string \<Rightarrow> UnionCmd" where
  "UnionCmd_Dest c d = c\<lparr>UnionCmd.dest := d\<rparr>"

definition UnionCmd_Sum :: "UnionCmd \<Rightarrow> UnionCmd" where
  "UnionCmd_Sum c = c\<lparr>UnionCmd.aggregate := sqlx_Sum\<rparr>"

definition UnionCmd_Min :: "UnionCmd \<Rightarrow> UnionCmd" where
  "UnionCmd_Min c = c\<lparr>UnionCmd.aggregate := sqlx_Min\<rparr>"

definition UnionCmd_Max :: "UnionCmd \<Rightarrow> UnionCmd" where
  "UnionCmd_Max c = c\<lparr>UnionCmd.aggregate := sqlx_Max\<rparr>"

text \<open>
  \<open>sqlUnion\<close>: \<open>select elem, sum(score) as score from rzset join rkey on
  key_id = rkey.id and (etime is null or etime > :now) where key in (:keys)
  group by elem order by sum(score), elem\<close>; \<open>sqlUnionStore1\<close> and \<open>sqlUnionStore2\<close>
  are the two inserts.
\<close>

definition sqlUnion :: "Aggregate \<Rightarrow> store \<Rightarrow> int \<Rightarrow> string list \<Rightarrow> SetItem list" where
  "sqlUnion a s now ks =
     select_agg a (group_by_elem (zset_join s now (\<lambda>name. name \<in> set ks)))"

definition sqlUnionStore1 ::
  "store \<Rightarrow> string \<Rightarrow> TypeID \<Rightarrow> int \<Rightarrow> int \<Rightarrow> error + store \<times> int" where
  "sqlUnionStore1 s name typ version mtime = insert_rkey s name typ version mtime"

definition sqlUnionStore2 ::
  "Aggregate \<Rightarrow> store \<Rightarrow> int \<Rightarrow> int \<Rightarrow> string list \<Rightarrow> error + store \<times> nat" where
  "sqlUnionStore2 a s keyID now ks = insert_rzset s keyID (sqlUnion a s now ks)"

definition UnionCmd_union :: "UnionCmd \<Rightarrow> store \<Rightarrow> Time \<Rightarrow> (error + SetItem list) \<times> store" where
  "UnionCmd_union c s t =
     (let now = UnixMilli t;
          items = sqlUnion (UnionCmd.aggregate c) s now (UnionCmd.keys c)
      in (Inr items, stmt s))"

definition UnionCmd_store :: "UnionCmd \<Rightarrow> store \<Rightarrow> Time \<Rightarrow> Time \<Rightarrow> (error + int) \<times> store" where
  "UnionCmd_store c s t1 t2 =
     (case DeleteType s t1 TypeSortedSet [UnionCmd.dest c] of
        (Inl e, s1) \<Rightarrow> (Inl e, s1)
      | (Inr _, s1) \<Rightarrow>
          (let now = UnixMilli t2
           in case sqlUnionStore1 s1 (UnionCmd.dest c) TypeSortedSet InitialVersion now of
                Inl e \<Rightarrow> (Inl (TypedError e), stmt s1)
              | Inr (s2, keyID) \<Rightarrow>
                  (case sqlUnionStore2 (UnionCmd.aggregate c) (stmt s2) keyID now
                          (UnionCmd.keys c) of
                     Inl e \<Rightarrow> (Inl e, stmt (stmt s2))
                   | Inr (s3, n) \<Rightarrow> (Inr (int n), stmt s3))))"

definition UnionCmd_Run :: "UnionCmd \<Rightarrow> store \<Rightarrow> Time \<Rightarrow> (error + SetItem list) \<times> store" where
  "UnionCmd_Run c s t =
     (if UnionCmd.db c \<noteq> None then UnionCmd_union c s t
      else if UnionCmd.tx c \<noteq> None then UnionCmd_union c s t
      else (Inr [], s))"

definition UnionCmd_Store :: "UnionCmd \<Rightarrow> store \<Rightarrow> Time \<Rightarrow> Time \<Rightarrow> (error + int) \<times> store" where
  "UnionCmd_Store c s t1 t2 =
     (if UnionCmd.db c \<noteq> None then DB_Update (\<lambda>s'. UnionCmd_store c s' t1 t2) s
      else if UnionCmd.tx c \<noteq> None then UnionCmd_store c s t1 t2
      else (Inr 0, s))"

section \<open>Example stores and commands\<close>

text \<open>
  A store with the sorted set \<open>x = {(a, 1), (b, 2), (c, 3)}\<close> and a key \<open>s\<close> of another
  type, and commands over it. The theorems below are applied to them.
\<close>

definition ex_x :: Key where
  "ex_x = \<lparr>ID = 1, Key = ''x'', Type = TypeSortedSet, Version = 1, ETime = None, MTime = 0\<rparr>"

definition ex_s :: Key where
  "ex_s = \<lparr>ID = 2, Key = ''s'', Type = 1, Version = 1, ETime = None, MTime = 0\<rparr>"

definition ex_store :: store where
  "ex_store = \<lparr>rkey = [ex_x, ex_s],
     rzset = [\<lparr>key_id = 1, elem = ''a'', score = 1\<rparr>, \<lparr>key_id = 1, elem = ''b'', score = 2\<rparr>,
              \<lparr>key_id = 1, elem = ''c'', score = 3\<rparr>],
     nstmt = 0\<rparr>"

definition ex_rank :: RangeCmd where
  "ex_rank = \<lparr>key = ''x'', byRank = Some \<lparr>byRank.start = - 1, byRank.stop = 5\<rparr>, byScore = None,
     sortDir = sqlx_Asc, offset = 0, count = 0\<rparr>"

definition ex_inter :: "handle option \<Rightarrow> handle option \<Rightarrow> string \<Rightarrow> string list \<Rightarrow> InterCmd" where
  "ex_inter d t dst ks =
     \<lparr>InterCmd.db = d, InterCmd.tx = t, InterCmd.dest = dst, InterCmd.keys = ks,
      InterCmd.aggregate = sqlx_Sum\<rparr>"

definition ex_union :: "handle option \<Rightarrow> handle option \<Rightarrow> string \<Rightarrow> string list \<Rightarrow> UnionCmd" where
  "ex_union d t dst ks =
     \<lparr>UnionCmd.db = d, UnionCmd.tx = t, UnionCmd.dest = dst, UnionCmd.keys = ks,
      UnionCmd.aggregate = sqlx_Sum\<rparr>"

definition ex_score :: "int \<Rightarrow> int \<Rightarrow> RangeCmd" where
  "ex_score off n = \<lparr>key = ''x'', byRank = None,
     byScore = Some \<lparr>byScore.start = 1, byScore.stop = 3\<rparr>,
     sortDir = sqlx_Asc, offset = off, count = n\<rparr>"

text \<open>
  A destination record as the store forms insert it into the example store, a stand-in
  for the store's \<open>glob\<close> operator that is right on the patterns whose only special
  character is a final \<open>*\<close>, and four calls of \<open>Scanner.Scan\<close> in a row on one scanner
  over the example store. The pattern \<open>*\<close> bounds no name, so the store goes through
  the table.
\<close>

definition ex_dest :: Key where
  "ex_dest = \<lparr>ID = 3, Key = ''d'', Type = TypeSortedSet, Version = InitialVersion,
              ETime = None, MTime = 0\<rparr>"

definition glob_star :: "string \<Rightarrow> string \<Rightarrow> bool" where
  "glob_star pat name \<longleftrightarrow>
     (if pat \<noteq> [] \<and> last pat = CHR ''*''
      then take (length pat - 1) name = butlast pat
      else pat = name)"

definition ex_scan1 :: "bool \<times> Scanner \<times> store" where
  "ex_scan1 = Scanner_Scan glob_star rowid_scan (newScanner ''*'' 0) ex_store 0"

definition ex_scan2 :: "bool \<times> Scanner \<times> store" where
  "ex_scan2 = Scanner_Scan glob_star rowid_scan (fst (snd ex_scan1)) (snd (snd ex_scan1)) 0"

definition ex_scan3 :: "bool \<times> Scanner \<times> store" where
  "ex_scan3 = Scanner_Scan glob_star rowid_scan (fst (snd ex_scan2)) (snd (snd ex_scan2)) 0"

definition ex_scan4 :: "bool \<times> Scanner \<times> store" where
  "ex_scan4 = Scanner_Scan glob_star rowid_scan (fst (snd ex_scan3)) (snd (snd ex_scan3)) 0"

text \<open>
  A store whose keys were created in the order \<open>k3\<close>, \<open>k2\<close>, \<open>k1\<close>, so that the order of
  the names is the reverse of the order of the identities. For the pattern \<open>k*\<close>, which
  bounds the names, the store can go through the index on the names.
\<close>

definition ex_k3 :: Key where
  "ex_k3 = \<lparr>ID = 1, Key = ''k3'', Type = 1, Version = 1, ETime = None, MTime = 0\<rparr>"

definition ex_k2 :: Key where
  "ex_k2 = \<lparr>ID = 2, Key = ''k2'', Type = 1, Version = 1, ETime = None, MTime = 0\<rparr>"

definition ex_k1 :: Key where
  "ex_k1 = \<lparr>ID = 3, Key = ''k1'', Type = 1, Version = 1, ETime = None, MTime = 0\<rparr>"

definition ex_keys :: store where
  "ex_keys = \<lparr>rkey = [ex_k3, ex_k2, ex_k1], rzset = [], nstmt = 0\<rparr>"

section \<open>Lists, rows and the invariant of the store\<close>

text \<open>A name identifies a row of a well-formed \<open>rkey\<close>, so a lookup by name finds it alone.\<close>

lemma key_inj:
  assumes "distinct (map Key rows)" and "x \<in> set rows" and "y \<in> set rows" and "Key x = Key y"
  shows "x = y"
  using assms by (meson distinct_map inj_onD)

lemma filter_key_unique:
  assumes "distinct (map Key rows)" and "x \<in> set rows"
  shows "filter (\<lambda>k. Key k = Key x \<and> P k) rows = (if P x then [x] else [])"
  using assms
proof (induction rows)
  case Nil
  then show ?case by simp
next
  case (Cons r rows)
  show ?case
  proof (cases "r = x")
    case True
    have "Key x \<notin> Key ` set rows" using Cons.prems(1) True by simp
    then have "\<forall>k \<in> set rows. Key k \<noteq> Key x" by (metis imageI)
    then have "filter (\<lambda>k. Key k = Key x \<and> P k) rows = []" by (simp add: filter_empty_conv)
    then show ?thesis using True by simp
  next
    case False
    then have "x \<in> set rows" using Cons.prems(2) by simp
    moreover have "Key r \<notin> Key ` set rows" using Cons.prems(1) by simp
    then have "Key r \<noteq> Key x" using \<open>x \<in> set rows\<close> by (metis imageI)
    ultimately show ?thesis using Cons by simp
  qed
qed

lemma sqlGet_unique:
  assumes "distinct (map Key (rkey s))" and "k \<in> set (rkey s)" and "live now k"
  shows "sqlGet s (Key k) now = [k]"
  using filter_key_unique [OF assms(1,2), of "live now"] assms(3) by (simp add: sqlGet_def)

lemma sqlGet_none:
  assumes "\<forall>k \<in> set (rkey s). Key k \<noteq> name"
  shows "sqlGet s name now = []"
  using assms by (simp add: sqlGet_def filter_empty_conv)

text \<open>Deleting rows keeps the store well-formed: the members go with their key.\<close>

lemma delete_where_none:
  assumes "\<forall>k \<in> set (rkey s). \<not> P k"
  shows "delete_where P s = (s, 0)"
proof -
  have "filter P (rkey s) = []" using assms by (simp add: filter_empty_conv)
  moreover have "filter (\<lambda>k. \<not> P k) (rkey s) = rkey s" using assms by (simp add: filter_id_conv)
  ultimately show ?thesis by (simp add: delete_where_def)
qed

lemma wf_delete_where:
  assumes "wf s"
  shows "wf (fst (delete_where P s))"
proof -
  let ?s' = "fst (delete_where P s)"
  have rk: "rkey ?s' = filter (\<lambda>k. \<not> P k) (rkey s)"
    and rz: "rzset ?s' = filter (\<lambda>z. key_id z \<notin> set (map ID (filter P (rkey s)))) (rzset s)"
    by (simp_all add: delete_where_def Let_def)
  have 1: "sorted_wrt (<) (map ID (rkey ?s'))"
    using assms unfolding rk wf_def by (simp add: sorted_wrt_map sorted_wrt_filter)
  have 2: "distinct (map Key (rkey ?s'))"
    using assms unfolding rk wf_def by (simp add: distinct_map_filter)
  have 3: "\<forall>k \<in> set (rkey ?s'). 0 < ID k"
    using assms unfolding rk wf_def by simp
  have 4: "\<forall>z \<in> set (rzset ?s'). key_id z \<in> set (map ID (rkey ?s'))"
  proof
    fix z assume z: "z \<in> set (rzset ?s')"
    then have "z \<in> set (rzset s)" and n: "key_id z \<notin> ID ` {k \<in> set (rkey s). P k}"
      unfolding rz by auto
    then obtain k where k: "k \<in> set (rkey s)" "key_id z = ID k"
      using assms unfolding wf_def by auto
    then have "\<not> P k" using n by auto
    then show "key_id z \<in> set (map ID (rkey ?s'))" using k unfolding rk by auto
  qed
  have 5: "distinct (map (\<lambda>z. (key_id z, elem z)) (rzset ?s'))"
    using assms unfolding rz wf_def by (simp add: distinct_map_filter)
  show ?thesis unfolding wf_def using 1 2 3 4 5 by blast
qed

text \<open>The identity of a new key row is above every identity in the table.\<close>

lemma next_id_fresh:
  assumes "k \<in> set rows"
  shows "ID k < next_id rows"
proof -
  have "ID k \<le> Max (set (map ID rows))" using assms by (simp add: Max_ge)
  moreover have "rows \<noteq> []" using assms by auto
  ultimately show ?thesis by (simp add: next_id_def)
qed

text \<open>\<open>order by\<close> permutes the rows, and \<open>group by elem\<close> yields every element once.\<close>

lemma set_insert_by: "set (insert_by le x xs) = insert x (set xs)"
  by (induction xs) auto

lemma set_order_by: "set (order_by le xs) = set xs"
  by (induction xs) (auto simp: set_insert_by)

lemma distinct_map_insert_by:
  "distinct (map f (insert_by le x xs)) \<longleftrightarrow> f x \<notin> f ` set xs \<and> distinct (map f xs)"
  by (induction xs) (auto simp: set_insert_by)

lemma distinct_map_order_by:
  "distinct (map f (order_by le xs)) \<longleftrightarrow> distinct (map f xs)"
  by (induction xs) (auto simp: distinct_map_insert_by set_order_by)

lemma distinct_Elem_select_agg:
  assumes "distinct (map fst groups)"
  shows "distinct (map Elem (select_agg a groups))"
proof -
  have "map Elem (map (\<lambda>(e, g). \<lparr>Elem = e, Score = agg a (map score g)\<rparr>) groups) = map fst groups"
    by (induction groups) auto
  then show ?thesis using assms by (simp add: select_agg_def distinct_map_order_by del: map_map)
qed

lemma distinct_fst_group_by_elem: "distinct (map fst (group_by_elem rows))"
  by (simp add: group_by_elem_def comp_def)

lemma distinct_Elem_sqlInter: "distinct (map Elem (sqlInter a s now ks n))"
  unfolding sqlInter_def
  by (rule distinct_Elem_select_agg) (simp add: distinct_map_filter distinct_fst_group_by_elem)

lemma distinct_Elem_sqlUnion: "distinct (map Elem (sqlUnion a s now ks))"
  unfolding sqlUnion_def
  by (rule distinct_Elem_select_agg) (simp add: distinct_fst_group_by_elem)

text \<open>Counting a statement changes neither table.\<close>

lemma rkey_stmt [simp]: "rkey (stmt s) = rkey s"
  and rzset_stmt [simp]: "rzset (stmt s) = rzset s"
  and nstmt_stmt [simp]: "nstmt (stmt s) = Suc (nstmt s)"
  by (simp_all add: stmt_def)

lemma wf_stmt [simp]: "wf (stmt s) = wf s"
  by (simp add: wf_def)

lemma zset_join_stmt [simp]: "zset_join (stmt s) now P = zset_join s now P"
  by (simp add: zset_join_def)

lemma sqlGet_stmt [simp]: "sqlGet (stmt s) name now = sqlGet s name now"
  by (simp add: sqlGet_def)

lemma DeleteType_eq:
  "DeleteType s t typ ks =
     (Inr (int (snd (delete_where (\<lambda>k. Key k \<in> set ks \<and> live (UnixMilli t) k \<and> Type k = typ) s))),
      stmt (fst (delete_where (\<lambda>k. Key k \<in> set ks \<and> live (UnixMilli t) k \<and> Type k = typ) s)))"
  by (simp add: DeleteType_def split: prod.split)

lemma rkey_delete_where: "rkey (fst (delete_where P s)) = filter (\<lambda>k. \<not> P k) (rkey s)"
  by (simp add: delete_where_def Let_def)

lemma DeleteType_dest:
  assumes "wf s"
    and "\<forall>k \<in> set (rkey s). Key k = d \<longrightarrow> Type k = typ \<and> live (UnixMilli t) k"
  shows "wf (snd (DeleteType s t typ [d]))"
    and "\<forall>k \<in> set (rkey (snd (DeleteType s t typ [d]))). Key k \<noteq> d"
    and "\<exists>n. fst (DeleteType s t typ [d]) = Inr n"
  using assms wf_delete_where [OF assms(1)]
  by (auto simp: DeleteType_eq rkey_delete_where)

lemma insert_rkey_free:
  assumes "\<forall>k \<in> set (rkey s). Key k \<noteq> d"
  shows "insert_rkey s d typ v m =
     Inr (s\<lparr>rkey := rkey s @ [\<lparr>ID = next_id (rkey s), Key = d, Type = typ, Version = v,
                                 ETime = None, MTime = m\<rparr>]\<rparr>, next_id (rkey s))"
  using assms by (auto simp: insert_rkey_def Let_def)

lemma insert_rzset_fresh:
  assumes "distinct (map (\<lambda>z. (key_id z, elem z)) (rzset s))"
    and "\<forall>z \<in> set (rzset s). key_id z \<noteq> i"
    and "distinct (map Elem items)"
  shows "insert_rzset s i items =
     Inr (s\<lparr>rzset := rzset s @ map (\<lambda>it. \<lparr>key_id = i, elem = Elem it, score = Score it\<rparr>) items\<rparr>,
          length items)"
proof -
  let ?rows = "map (\<lambda>it. \<lparr>key_id = i, elem = Elem it, score = Score it\<rparr>) items"
  have m: "map (\<lambda>z. (key_id z, elem z)) ?rows = map (Pair i) (map Elem items)"
    by simp
  have "distinct (map (Pair i) (map Elem items))"
    by (subst distinct_map) (simp add: assms(3) inj_on_def)
  then have 1: "distinct (map (\<lambda>z. (key_id z, elem z)) ?rows)"
    by (simp only: m)
  have 2: "set (map (\<lambda>z. (key_id z, elem z)) (rzset s)) \<inter>
           set (map (\<lambda>z. (key_id z, elem z)) ?rows) = {}"
    using assms(2) by auto
  have D: "distinct (map (\<lambda>z. (key_id z, elem z)) (rzset s @ ?rows))"
    using assms(1) 1 2 by (simp only: map_append distinct_append)
  show ?thesis unfolding insert_rzset_def Let_def by (simp only: D if_True length_map)
qed

lemma fresh_key_id:
  assumes "wf s"
  shows "\<forall>z \<in> set (rzset s). key_id z \<noteq> next_id (rkey s)"
proof
  fix z assume "z \<in> set (rzset s)"
  then obtain k where "k \<in> set (rkey s)" "key_id z = ID k"
    using assms by (auto simp: wf_def)
  then show "key_id z \<noteq> next_id (rkey s)"
    using next_id_fresh [of k "rkey s"] by simp
qed

lemma next_id_pos:
  assumes "\<forall>k \<in> set rows. 0 < ID k"
  shows "0 < next_id rows"
proof (cases rows)
  case Nil
  then show ?thesis by (simp add: next_id_def)
next
  case (Cons k ks)
  then have "ID k < next_id rows" by (intro next_id_fresh) simp
  moreover have "0 < ID k" using assms Cons by simp
  ultimately show ?thesis by simp
qed

lemma set_zset_join:
  "set (zset_join s now P) =
     {z \<in> set (rzset s). \<exists>k \<in> set (rkey s). key_id z = ID k \<and> live now k \<and> P (Key k)}"
  by (auto simp: zset_join_def)

lemma replace_row:
  assumes "distinct (map Key rows)" and "k \<in> set rows" and "Key k' = Key k"
  shows "distinct (map Key (map (\<lambda>x. if x = k then k' else x) rows))"
    and "k' \<in> set (map (\<lambda>x. if x = k then k' else x) rows)"
proof -
  have eq: "map Key (map (\<lambda>x. if x = k then k' else x) rows) = map Key rows"
    using assms(3) by (induction rows) auto
  show "distinct (map Key (map (\<lambda>x. if x = k then k' else x) rows))"
    unfolding eq by (rule assms(1))
  show "k' \<in> set (map (\<lambda>x. if x = k then k' else x) rows)"
    using assms(2) by force
qed

lemma filter_replaced:
  assumes "distinct rows" and "k \<in> set rows" and "\<forall>x \<in> set rows. x \<noteq> k \<longrightarrow> \<not> Q x" and "Q k'"
  shows "filter Q (map (\<lambda>x. if x = k then k' else x) rows) = [k']"
  using assms(1-3)
proof (induction rows)
  case Nil
  then show ?case by simp
next
  case (Cons r rows)
  show ?case
  proof (cases "r = k")
    case True
    then have "k \<notin> set rows" using Cons.prems(1) by simp
    then have "map (\<lambda>x. if x = k then k' else x) rows = rows"
      by (intro map_idI) auto
    moreover have "filter Q rows = []"
      using Cons.prems(3) \<open>k \<notin> set rows\<close> by (auto simp: filter_empty_conv)
    ultimately show ?thesis using True assms(4) by simp
  next
    case False
    then have "k \<in> set rows" "\<not> Q r" using Cons.prems(2,3) by auto
    then show ?thesis using Cons False by simp
  qed
qed

lemma wf_ex_store: "wf ex_store"
  by (simp add: wf_def ex_store_def ex_x_def ex_s_def)

section \<open>The store forms and a destination of another type\<close>

lemma DeleteType_blocked:
  assumes "distinct (map Key (rkey s))" and "k \<in> set (rkey s)" and "Key k = d"
    and "\<not> (Type k = typ \<and> live (UnixMilli t) k)"
  shows "DeleteType s t typ [d] = (Inr 0, stmt s)"
proof -
  have "\<forall>k' \<in> set (rkey s). \<not> (Key k' \<in> set [d] \<and> live (UnixMilli t) k' \<and> Type k' = typ)"
    using key_inj [OF assms(1) _ assms(2)] assms(3,4) by auto
  then show ?thesis by (simp add: DeleteType_def delete_where_none)
qed

lemma insert_rkey_taken:
  assumes "k \<in> set (rkey s)" and "Key k = d"
  shows "insert_rkey s d typ v m = Inl ErrConstraint"
  using assms by (auto simp: insert_rkey_def)

lemma InterCmd_store_blocked:
  assumes "distinct (map Key (rkey s))" and "k \<in> set (rkey s)" and "Key k = InterCmd.dest c"
    and "\<not> (Type k = TypeSortedSet \<and> live (UnixMilli t1) k)"
  shows "InterCmd_store c s t1 t2 = (Inl ErrKeyType, stmt (stmt s))"
proof -
  have "insert_rkey (stmt s) (InterCmd.dest c) TypeSortedSet InitialVersion (UnixMilli t2)
          = Inl ErrConstraint"
    using assms(2,3) by (intro insert_rkey_taken [of k]) simp_all
  then show ?thesis
    using DeleteType_blocked [OF assms]
    by (simp add: InterCmd_store_def sqlInterStore1_def TypedError_def)
qed

lemma UnionCmd_store_blocked:
  assumes "distinct (map Key (rkey s))" and "k \<in> set (rkey s)" and "Key k = UnionCmd.dest c"
    and "\<not> (Type k = TypeSortedSet \<and> live (UnixMilli t1) k)"
  shows "UnionCmd_store c s t1 t2 = (Inl ErrKeyType, stmt (stmt s))"
proof -
  have "insert_rkey (stmt s) (UnionCmd.dest c) TypeSortedSet InitialVersion (UnixMilli t2)
          = Inl ErrConstraint"
    using assms(2,3) by (intro insert_rkey_taken [of k]) simp_all
  then show ?thesis
    using DeleteType_blocked [OF assms]
    by (simp add: UnionCmd_store_def sqlUnionStore1_def TypedError_def)
qed

lemma Store_blocked_inserts_nothing:
  assumes "wf s" and "k \<in> set (rkey s)"
    and "\<not> (Type k = TypeSortedSet \<and> live (UnixMilli t1) k)"
  shows "InterCmd.dest c = Key k \<Longrightarrow> InterCmd.db c \<noteq> None \<or> InterCmd.tx c \<noteq> None \<Longrightarrow>
           fst (InterCmd_Store c s t1 t2) = Inl ErrKeyType \<and>
           rkey (snd (InterCmd_Store c s t1 t2)) = rkey s \<and>
           rzset (snd (InterCmd_Store c s t1 t2)) = rzset s"
    and "UnionCmd.dest u = Key k \<Longrightarrow> UnionCmd.db u \<noteq> None \<or> UnionCmd.tx u \<noteq> None \<Longrightarrow>
           fst (UnionCmd_Store u s t1 t2) = Inl ErrKeyType \<and>
           rkey (snd (UnionCmd_Store u s t1 t2)) = rkey s \<and>
           rzset (snd (UnionCmd_Store u s t1 t2)) = rzset s"
proof -
  have d: "distinct (map Key (rkey s))" using assms(1) by (simp add: wf_def)
  show "fst (InterCmd_Store c s t1 t2) = Inl ErrKeyType \<and>
        rkey (snd (InterCmd_Store c s t1 t2)) = rkey s \<and>
        rzset (snd (InterCmd_Store c s t1 t2)) = rzset s"
    if "InterCmd.dest c = Key k" "InterCmd.db c \<noteq> None \<or> InterCmd.tx c \<noteq> None"
    using InterCmd_store_blocked [OF d assms(2) _ assms(3), of c t2] that
    by (auto simp: InterCmd_Store_def DB_Update_def)
  show "fst (UnionCmd_Store u s t1 t2) = Inl ErrKeyType \<and>
        rkey (snd (UnionCmd_Store u s t1 t2)) = rkey s \<and>
        rzset (snd (UnionCmd_Store u s t1 t2)) = rzset s"
    if "UnionCmd.dest u = Key k" "UnionCmd.db u \<noteq> None \<or> UnionCmd.tx u \<noteq> None"
    using UnionCmd_store_blocked [OF d assms(2) _ assms(3), of u t2] that
    by (auto simp: UnionCmd_Store_def DB_Update_def)
qed

text \<open>
  Claim C1. A store-form intersect or union whose destination names a live record of a
  type other than the sorted set fails with the wrong-type error, and leaves both
  tables as they were: the record at the destination and its value are unchanged.
  \<open>DeleteType\<close> deletes nothing, since the only row of that name has another type,
  and the insert of the destination row then violates the uniqueness of the name.
\<close>

theorem store_wrong_type_destination:
  assumes "wf s" and "k \<in> set (rkey s)" and "live (UnixMilli t1) k"
    and "Type k \<noteq> TypeSortedSet"
    and "InterCmd.dest c = Key k" and "InterCmd.db c \<noteq> None \<or> InterCmd.tx c \<noteq> None"
    and "UnionCmd.dest u = Key k" and "UnionCmd.db u \<noteq> None \<or> UnionCmd.tx u \<noteq> None"
  shows "fst (InterCmd_Store c s t1 t2) = Inl ErrKeyType \<and>
         rkey (snd (InterCmd_Store c s t1 t2)) = rkey s \<and>
         rzset (snd (InterCmd_Store c s t1 t2)) = rzset s \<and>
         fst (UnionCmd_Store u s t1 t2) = Inl ErrKeyType \<and>
         rkey (snd (UnionCmd_Store u s t1 t2)) = rkey s \<and>
         rzset (snd (UnionCmd_Store u s t1 t2)) = rzset s"
proof -
  have b: "\<not> (Type k = TypeSortedSet \<and> live (UnixMilli t1) k)" using assms(4) by simp
  show ?thesis
    using Store_blocked_inserts_nothing(1) [OF assms(1,2) b assms(5,6), of t2]
      Store_blocked_inserts_nothing(2) [OF assms(1,2) b assms(7,8), of t2]
    by simp
qed

theorem store_wrong_type_destination_witness:
  "wf ex_store \<and> ex_s \<in> set (rkey ex_store) \<and> live (UnixMilli 0) ex_s \<and>
   Type ex_s \<noteq> TypeSortedSet \<and>
   InterCmd.dest (ex_inter (Some Handle) None ''s'' [''x'']) = Key ex_s \<and>
   UnionCmd.dest (ex_union None (Some Handle) ''s'' [''x'']) = Key ex_s \<and>
   fst (InterCmd_Store (ex_inter (Some Handle) None ''s'' [''x'']) ex_store 0 0) = Inl ErrKeyType \<and>
   rkey (snd (InterCmd_Store (ex_inter (Some Handle) None ''s'' [''x'']) ex_store 0 0)) = rkey ex_store \<and>
   rzset (snd (InterCmd_Store (ex_inter (Some Handle) None ''s'' [''x'']) ex_store 0 0)) = rzset ex_store \<and>
   fst (UnionCmd_Store (ex_union None (Some Handle) ''s'' [''x'']) ex_store 0 0) = Inl ErrKeyType \<and>
   rkey (snd (UnionCmd_Store (ex_union None (Some Handle) ''s'' [''x'']) ex_store 0 0)) = rkey ex_store \<and>
   rzset (snd (UnionCmd_Store (ex_union None (Some Handle) ''s'' [''x'']) ex_store 0 0)) = rzset ex_store"
proof -
  have 1: "wf ex_store" by (rule wf_ex_store)
  have 2: "ex_s \<in> set (rkey ex_store)" by (simp add: ex_store_def)
  have 3: "live (UnixMilli 0) ex_s" by (simp add: live_def ex_s_def)
  have 4: "Type ex_s \<noteq> TypeSortedSet" by (simp add: ex_s_def TypeSortedSet_def)
  have 5: "InterCmd.dest (ex_inter (Some Handle) None ''s'' [''x'']) = Key ex_s"
    by (simp add: ex_inter_def ex_s_def)
  have 6: "InterCmd.db (ex_inter (Some Handle) None ''s'' [''x'']) \<noteq> None \<or>
           InterCmd.tx (ex_inter (Some Handle) None ''s'' [''x'']) \<noteq> None"
    by (simp add: ex_inter_def)
  have 7: "UnionCmd.dest (ex_union None (Some Handle) ''s'' [''x'']) = Key ex_s"
    by (simp add: ex_union_def ex_s_def)
  have 8: "UnionCmd.db (ex_union None (Some Handle) ''s'' [''x'']) \<noteq> None \<or>
           UnionCmd.tx (ex_union None (Some Handle) ''s'' [''x'']) \<noteq> None"
    by (simp add: ex_union_def)
  show ?thesis
    using 1 2 3 4 5 7 store_wrong_type_destination [OF 1 2 3 4 5 6 7 8, of 0] by simp
qed

section \<open>The store forms: the count returned and the destination record\<close>

lemma InterCmd_store_ok:
  fixes t2 :: Time
  assumes "wf s"
    and "\<forall>k \<in> set (rkey s). Key k = InterCmd.dest c \<longrightarrow>
           Type k = TypeSortedSet \<and> live (UnixMilli t1) k"
  defines "s1 \<equiv> snd (DeleteType s t1 TypeSortedSet [InterCmd.dest c])"
  defines "d \<equiv> \<lparr>ID = next_id (rkey s1), Key = InterCmd.dest c, Type = TypeSortedSet,
                 Version = InitialVersion, ETime = None, MTime = UnixMilli t2\<rparr>"
  defines "new \<equiv> map (\<lambda>it. \<lparr>key_id = ID d, elem = Elem it, score = Score it\<rparr>)
                   (sqlInter (InterCmd.aggregate c) (s1\<lparr>rkey := rkey s1 @ [d]\<rparr>) (UnixMilli t2)
                      (InterCmd.keys c) (int (length (InterCmd.keys c))))"
  shows "InterCmd_store c s t1 t2 =
           (Inr (int (length new)),
            stmt (stmt (s1\<lparr>rkey := rkey s1 @ [d], rzset := rzset s1 @ new\<rparr>)))"
proof -
  have wf1: "wf s1" and free: "\<forall>k \<in> set (rkey s1). Key k \<noteq> InterCmd.dest c"
    using DeleteType_dest [OF assms(1,2)] by (simp_all add: s1_def)
  obtain n where del: "DeleteType s t1 TypeSortedSet [InterCmd.dest c] = (Inr n, s1)"
    using DeleteType_dest(3) [OF assms(1,2)] unfolding s1_def by (metis prod.collapse)
  have ins1: "sqlInterStore1 s1 (InterCmd.dest c) TypeSortedSet InitialVersion (UnixMilli t2) =
                Inr (s1\<lparr>rkey := rkey s1 @ [d]\<rparr>, ID d)"
    using insert_rkey_free [OF free] by (simp add: sqlInterStore1_def d_def)
  let ?s2 = "stmt (s1\<lparr>rkey := rkey s1 @ [d]\<rparr>)"
  have q: "sqlInter a ?s2 now ks nk = sqlInter a (s1\<lparr>rkey := rkey s1 @ [d]\<rparr>) now ks nk"
    for a now ks nk by (simp add: sqlInter_def)
  have fr: "\<forall>z \<in> set (rzset ?s2). key_id z \<noteq> ID d"
    using fresh_key_id [OF wf1] by (simp add: d_def)
  have di: "distinct (map (\<lambda>z. (key_id z, elem z)) (rzset ?s2))"
    using wf1 by (simp add: wf_def)
  have ins2: "sqlInterStore2 (InterCmd.aggregate c) ?s2 (ID d) (UnixMilli t2) (InterCmd.keys c)
                (int (length (InterCmd.keys c))) =
              Inr (?s2\<lparr>rzset := rzset ?s2 @ new\<rparr>, length new)"
    unfolding sqlInterStore2_def
    using insert_rzset_fresh [OF di fr distinct_Elem_sqlInter]
    by (simp add: q new_def)
  show ?thesis
    by (simp add: InterCmd_store_def del ins1 ins2)
qed

lemma UnionCmd_store_ok:
  fixes t2 :: Time
  assumes "wf s"
    and "\<forall>k \<in> set (rkey s). Key k = UnionCmd.dest c \<longrightarrow>
           Type k = TypeSortedSet \<and> live (UnixMilli t1) k"
  defines "s1 \<equiv> snd (DeleteType s t1 TypeSortedSet [UnionCmd.dest c])"
  defines "d \<equiv> \<lparr>ID = next_id (rkey s1), Key = UnionCmd.dest c, Type = TypeSortedSet,
                 Version = InitialVersion, ETime = None, MTime = UnixMilli t2\<rparr>"
  defines "new \<equiv> map (\<lambda>it. \<lparr>key_id = ID d, elem = Elem it, score = Score it\<rparr>)
                   (sqlUnion (UnionCmd.aggregate c) (s1\<lparr>rkey := rkey s1 @ [d]\<rparr>) (UnixMilli t2)
                      (UnionCmd.keys c))"
  shows "UnionCmd_store c s t1 t2 =
           (Inr (int (length new)),
            stmt (stmt (s1\<lparr>rkey := rkey s1 @ [d], rzset := rzset s1 @ new\<rparr>)))"
proof -
  have wf1: "wf s1" and free: "\<forall>k \<in> set (rkey s1). Key k \<noteq> UnionCmd.dest c"
    using DeleteType_dest [OF assms(1,2)] by (simp_all add: s1_def)
  obtain n where del: "DeleteType s t1 TypeSortedSet [UnionCmd.dest c] = (Inr n, s1)"
    using DeleteType_dest(3) [OF assms(1,2)] unfolding s1_def by (metis prod.collapse)
  have ins1: "sqlUnionStore1 s1 (UnionCmd.dest c) TypeSortedSet InitialVersion (UnixMilli t2) =
                Inr (s1\<lparr>rkey := rkey s1 @ [d]\<rparr>, ID d)"
    using insert_rkey_free [OF free] by (simp add: sqlUnionStore1_def d_def)
  let ?s2 = "stmt (s1\<lparr>rkey := rkey s1 @ [d]\<rparr>)"
  have q: "sqlUnion a ?s2 now ks = sqlUnion a (s1\<lparr>rkey := rkey s1 @ [d]\<rparr>) now ks"
    for a now ks by (simp add: sqlUnion_def)
  have fr: "\<forall>z \<in> set (rzset ?s2). key_id z \<noteq> ID d"
    using fresh_key_id [OF wf1] by (simp add: d_def)
  have di: "distinct (map (\<lambda>z. (key_id z, elem z)) (rzset ?s2))"
    using wf1 by (simp add: wf_def)
  have ins2: "sqlUnionStore2 (UnionCmd.aggregate c) ?s2 (ID d) (UnixMilli t2) (UnionCmd.keys c) =
              Inr (?s2\<lparr>rzset := rzset ?s2 @ new\<rparr>, length new)"
    unfolding sqlUnionStore2_def
    using insert_rzset_fresh [OF di fr distinct_Elem_sqlUnion]
    by (simp add: q new_def)
  show ?thesis
    by (simp add: UnionCmd_store_def del ins1 ins2)
qed

lemma stored_post:
  fixes q :: "SetItem list"
  assumes "wf s1" and "\<forall>k \<in> set (rkey s1). Key k \<noteq> Key d" and "ETime d = None"
    and "ID d = next_id (rkey s1)"
    and "rkey s' = rkey s1 @ [d]"
    and "rzset s' = rzset s1 @ map (\<lambda>it. \<lparr>key_id = ID d, elem = Elem it, score = Score it\<rparr>) q"
  shows "map (\<lambda>z. \<lparr>Elem = elem z, Score = score z\<rparr>)
           (filter (\<lambda>z. key_id z = ID d) (rzset s')) = q"
    and "fst (Get s' t (Key d)) = Inr d"
    and "Exists d"
proof -
  have "\<forall>z \<in> set (rzset s1). key_id z \<noteq> ID d"
    using fresh_key_id [OF assms(1)] assms(4) by simp
  then have "filter (\<lambda>z. key_id z = ID d) (rzset s1) = []"
    by (simp add: filter_empty_conv)
  moreover have "filter (\<lambda>z. key_id z = ID d)
                   (map (\<lambda>it. \<lparr>key_id = ID d, elem = Elem it, score = Score it\<rparr>) q) =
                 map (\<lambda>it. \<lparr>key_id = ID d, elem = Elem it, score = Score it\<rparr>) q"
    by (simp add: filter_id_conv)
  moreover have "map (\<lambda>x. \<lparr>Elem = Elem x, Score = Score x\<rparr>) q = q"
    by (induction q) simp_all
  ultimately show "map (\<lambda>z. \<lparr>Elem = elem z, Score = score z\<rparr>)
           (filter (\<lambda>z. key_id z = ID d) (rzset s')) = q"
    by (simp add: assms(6) comp_def)
  have "filter (\<lambda>k. Key k = Key d \<and> live (UnixMilli t) k) (rkey s1) = []"
    using assms(2) by (simp add: filter_empty_conv)
  moreover have "live (UnixMilli t) d" using assms(3) by (simp add: live_def)
  ultimately have "sqlGet s' (Key d) (UnixMilli t) = [d]"
    by (simp add: sqlGet_def assms(5))
  then show "fst (Get s' t (Key d)) = Inr d" by (simp add: Get_def)
  have "0 < ID d" using next_id_pos [of "rkey s1"] assms(1,4) by (simp add: wf_def)
  then show "Exists d" by (auto simp: Exists_def Key0_def)
qed

lemma Store_with_handle:
  "InterCmd.db c \<noteq> None \<or> InterCmd.tx c \<noteq> None \<Longrightarrow>
     InterCmd_store c s t1 t2 = (Inr n, s') \<Longrightarrow> InterCmd_Store c s t1 t2 = (Inr n, s')"
  "UnionCmd.db u \<noteq> None \<or> UnionCmd.tx u \<noteq> None \<Longrightarrow>
     UnionCmd_store u s t1 t2 = (Inr n, s') \<Longrightarrow> UnionCmd_Store u s t1 t2 = (Inr n, s')"
  by (auto simp: InterCmd_Store_def UnionCmd_Store_def DB_Update_def)

text \<open>
  Claim C6. Let the destination be free or a live sorted set, so that nothing blocks the
  insert. \<open>Store\<close> then succeeds and returns the number of rows of the query \<open>q\<close>,
  which are exactly the member rows it appends to \<open>rzset\<close> and exactly the members of
  the fresh destination record \<open>d\<close> afterwards; \<open>get\<close> of the destination returns
  \<open>d\<close>. With \<open>q = []\<close> (for example when no source key is live) this reads: \<open>Store\<close>
  returns 0, and the destination record exists and holds no member.
\<close>

theorem store_returns_inserted_count:
  fixes t2 t3 :: Time
  assumes "wf s"
    and "InterCmd.db c \<noteq> None \<or> InterCmd.tx c \<noteq> None"
    and "\<forall>k \<in> set (rkey s). Key k = InterCmd.dest c \<longrightarrow>
           Type k = TypeSortedSet \<and> live (UnixMilli t1) k"
    and "UnionCmd.db u \<noteq> None \<or> UnionCmd.tx u \<noteq> None"
    and "\<forall>k \<in> set (rkey s). Key k = UnionCmd.dest u \<longrightarrow>
           Type k = TypeSortedSet \<and> live (UnixMilli t1) k"
  shows
    "(let r = InterCmd_Store c s t1 t2; s' = snd r;
          s1 = snd (DeleteType s t1 TypeSortedSet [InterCmd.dest c]);
          d = \<lparr>ID = next_id (rkey s1), Key = InterCmd.dest c, Type = TypeSortedSet,
               Version = InitialVersion, ETime = None, MTime = UnixMilli t2\<rparr>;
          q = sqlInter (InterCmd.aggregate c) (s1\<lparr>rkey := rkey s1 @ [d]\<rparr>) (UnixMilli t2)
                (InterCmd.keys c) (int (length (InterCmd.keys c)))
      in fst r = Inr (int (length q)) \<and>
         rkey s' = rkey s1 @ [d] \<and>
         rzset s' = rzset s1 @ map (\<lambda>it. \<lparr>key_id = ID d, elem = Elem it, score = Score it\<rparr>) q \<and>
         map (\<lambda>z. \<lparr>Elem = elem z, Score = score z\<rparr>)
           (filter (\<lambda>z. key_id z = ID d) (rzset s')) = q \<and>
         fst (Get s' t3 (InterCmd.dest c)) = Inr d \<and> Exists d) \<and>
     (let r = UnionCmd_Store u s t1 t2; s' = snd r;
          s1 = snd (DeleteType s t1 TypeSortedSet [UnionCmd.dest u]);
          d = \<lparr>ID = next_id (rkey s1), Key = UnionCmd.dest u, Type = TypeSortedSet,
               Version = InitialVersion, ETime = None, MTime = UnixMilli t2\<rparr>;
          q = sqlUnion (UnionCmd.aggregate u) (s1\<lparr>rkey := rkey s1 @ [d]\<rparr>) (UnixMilli t2)
                (UnionCmd.keys u)
      in fst r = Inr (int (length q)) \<and>
         rkey s' = rkey s1 @ [d] \<and>
         rzset s' = rzset s1 @ map (\<lambda>it. \<lparr>key_id = ID d, elem = Elem it, score = Score it\<rparr>) q \<and>
         map (\<lambda>z. \<lparr>Elem = elem z, Score = score z\<rparr>)
           (filter (\<lambda>z. key_id z = ID d) (rzset s')) = q \<and>
         fst (Get s' t3 (UnionCmd.dest u)) = Inr d \<and> Exists d)"
proof -
  define s1 where "s1 = snd (DeleteType s t1 TypeSortedSet [InterCmd.dest c])"
  define d where "d = \<lparr>ID = next_id (rkey s1), Key = InterCmd.dest c, Type = TypeSortedSet,
               Version = InitialVersion, ETime = None, MTime = UnixMilli t2\<rparr>"
  define q where "q = sqlInter (InterCmd.aggregate c) (s1\<lparr>rkey := rkey s1 @ [d]\<rparr>) (UnixMilli t2)
                (InterCmd.keys c) (int (length (InterCmd.keys c)))"
  define s' where "s' = stmt (stmt (s1\<lparr>rkey := rkey s1 @ [d],
     rzset := rzset s1 @ map (\<lambda>it. \<lparr>key_id = ID d, elem = Elem it, score = Score it\<rparr>) q\<rparr>))"
  have wf1: "wf s1" and free: "\<forall>k \<in> set (rkey s1). Key k \<noteq> Key d"
    using DeleteType_dest [OF assms(1,3)] by (simp_all add: s1_def d_def)
  have "InterCmd_store c s t1 t2 = (Inr (int (length q)), s')"
    using InterCmd_store_ok [OF assms(1,3), of t2]
    by (simp add: s1_def [symmetric] d_def [symmetric] q_def [symmetric] s'_def)
  then have r: "InterCmd_Store c s t1 t2 = (Inr (int (length q)), s')"
    by (rule Store_with_handle(1) [OF assms(2)])
  have rk: "rkey s' = rkey s1 @ [d]"
    and rz: "rzset s' = rzset s1 @ map (\<lambda>it. \<lparr>key_id = ID d, elem = Elem it, score = Score it\<rparr>) q"
    by (simp_all add: s'_def)
  have e: "ETime d = None" and i: "ID d = next_id (rkey s1)" and k: "Key d = InterCmd.dest c"
    by (simp_all add: d_def)
  note post = stored_post [OF wf1 free e i rk rz]
  have I: "fst (InterCmd_Store c s t1 t2) = Inr (int (length q)) \<and>
         rkey (snd (InterCmd_Store c s t1 t2)) = rkey s1 @ [d] \<and>
         rzset (snd (InterCmd_Store c s t1 t2)) =
           rzset s1 @ map (\<lambda>it. \<lparr>key_id = ID d, elem = Elem it, score = Score it\<rparr>) q \<and>
         map (\<lambda>z. \<lparr>Elem = elem z, Score = score z\<rparr>)
           (filter (\<lambda>z. key_id z = ID d) (rzset (snd (InterCmd_Store c s t1 t2)))) = q \<and>
         fst (Get (snd (InterCmd_Store c s t1 t2)) t3 (InterCmd.dest c)) = Inr d \<and> Exists d"
    using post(1) post(2) [of t3] post(3) rk rz by (simp add: r k)
  define u1 where "u1 = snd (DeleteType s t1 TypeSortedSet [UnionCmd.dest u])"
  define e where "e = \<lparr>ID = next_id (rkey u1), Key = UnionCmd.dest u, Type = TypeSortedSet,
               Version = InitialVersion, ETime = None, MTime = UnixMilli t2\<rparr>"
  define p where "p = sqlUnion (UnionCmd.aggregate u) (u1\<lparr>rkey := rkey u1 @ [e]\<rparr>) (UnixMilli t2)
                (UnionCmd.keys u)"
  define u' where "u' = stmt (stmt (u1\<lparr>rkey := rkey u1 @ [e],
     rzset := rzset u1 @ map (\<lambda>it. \<lparr>key_id = ID e, elem = Elem it, score = Score it\<rparr>) p\<rparr>))"
  have wfu: "wf u1" and freeu: "\<forall>k \<in> set (rkey u1). Key k \<noteq> Key e"
    using DeleteType_dest [OF assms(1,5)] by (simp_all add: u1_def e_def)
  have "UnionCmd_store u s t1 t2 = (Inr (int (length p)), u')"
    using UnionCmd_store_ok [OF assms(1,5), of t2]
    by (simp add: u1_def [symmetric] e_def [symmetric] p_def [symmetric] u'_def)
  then have ru: "UnionCmd_Store u s t1 t2 = (Inr (int (length p)), u')"
    by (rule Store_with_handle(2) [OF assms(4)])
  have rku: "rkey u' = rkey u1 @ [e]"
    and rzu: "rzset u' = rzset u1 @ map (\<lambda>it. \<lparr>key_id = ID e, elem = Elem it, score = Score it\<rparr>) p"
    by (simp_all add: u'_def)
  have eu: "ETime e = None" and iu: "ID e = next_id (rkey u1)" and ku: "Key e = UnionCmd.dest u"
    by (simp_all add: e_def)
  note postu = stored_post [OF wfu freeu eu iu rku rzu]
  have U: "fst (UnionCmd_Store u s t1 t2) = Inr (int (length p)) \<and>
         rkey (snd (UnionCmd_Store u s t1 t2)) = rkey u1 @ [e] \<and>
         rzset (snd (UnionCmd_Store u s t1 t2)) =
           rzset u1 @ map (\<lambda>it. \<lparr>key_id = ID e, elem = Elem it, score = Score it\<rparr>) p \<and>
         map (\<lambda>z. \<lparr>Elem = elem z, Score = score z\<rparr>)
           (filter (\<lambda>z. key_id z = ID e) (rzset (snd (UnionCmd_Store u s t1 t2)))) = p \<and>
         fst (Get (snd (UnionCmd_Store u s t1 t2)) t3 (UnionCmd.dest u)) = Inr e \<and> Exists e"
    using postu(1) postu(2) [of t3] postu(3) rku rzu by (simp add: ru ku)
  show ?thesis
    unfolding Let_def
    using I U unfolding s1_def d_def q_def u1_def e_def p_def
    by blast
qed

lemma ex_inter_rows:
  "zset_join ex_store (UnixMilli 0) (\<lambda>name. name = ''x'') = rzset ex_store"
  by (simp add: zset_join_def ex_store_def ex_x_def ex_s_def live_def)

lemma ex_inter_groups:
  "group_by_elem (rzset ex_store) =
     [(''a'', [\<lparr>key_id = 1, elem = ''a'', score = 1\<rparr>]),
      (''b'', [\<lparr>key_id = 1, elem = ''b'', score = 2\<rparr>]),
      (''c'', [\<lparr>key_id = 1, elem = ''c'', score = 3\<rparr>])]"
  by (simp add: group_by_elem_def ex_store_def)

lemma ex_delete_dest:
  "snd (DeleteType ex_store 0 TypeSortedSet [''d'']) = stmt ex_store"
proof -
  have "\<forall>k \<in> set (rkey ex_store).
          \<not> (Key k \<in> set [''d''] \<and> live (UnixMilli 0) k \<and> Type k = TypeSortedSet)"
    by (simp add: ex_store_def ex_x_def ex_s_def)
  then show ?thesis by (simp add: DeleteType_eq delete_where_none)
qed

lemma ex_next_id: "next_id (rkey ex_store) = 3"
  by (simp add: next_id_def ex_store_def ex_x_def ex_s_def)

lemma ex_join_dest:
  "zset_join (stmt ex_store\<lparr>rkey := rkey ex_store @ [ex_dest]\<rparr>) (UnixMilli 0) P =
     (if P ''x'' then rzset ex_store else [])"
  by (simp add: zset_join_def ex_store_def ex_x_def ex_s_def ex_dest_def live_def)

lemma ex_inter_dest:
  "sqlInter sqlx_Sum (stmt ex_store\<lparr>rkey := rkey ex_store @ [ex_dest]\<rparr>) (UnixMilli 0)
     [''x'', ''q''] 2 = []"
  by (simp add: sqlInter_def ex_join_dest ex_inter_groups select_agg_def)

lemma ex_union_dest:
  "sqlUnion sqlx_Sum (stmt ex_store\<lparr>rkey := rkey ex_store @ [ex_dest]\<rparr>) (UnixMilli 0) [''x''] =
     [\<lparr>Elem = ''a'', Score = 1\<rparr>, \<lparr>Elem = ''b'', Score = 2\<rparr>, \<lparr>Elem = ''c'', Score = 3\<rparr>]"
  by (simp add: sqlUnion_def ex_join_dest ex_inter_groups select_agg_def)

theorem store_returns_inserted_count_witness:
  "wf ex_store \<and>
   ''d'' \<notin> set (map Key (rkey ex_store)) \<and>
   fst (InterCmd_Store (ex_inter (Some Handle) None ''d'' [''x'', ''q'']) ex_store 0 0) = Inr 0 \<and>
   filter (\<lambda>z. key_id z = 3)
     (rzset (snd (InterCmd_Store (ex_inter (Some Handle) None ''d'' [''x'', ''q'']) ex_store 0 0))) = [] \<and>
   fst (Get (snd (InterCmd_Store (ex_inter (Some Handle) None ''d'' [''x'', ''q'']) ex_store 0 0))
          0 ''d'') = Inr ex_dest \<and>
   fst (UnionCmd_Store (ex_union None (Some Handle) ''d'' [''x'']) ex_store 0 0) = Inr 3 \<and>
   map (\<lambda>z. \<lparr>Elem = elem z, Score = score z\<rparr>)
     (filter (\<lambda>z. key_id z = 3)
        (rzset (snd (UnionCmd_Store (ex_union None (Some Handle) ''d'' [''x'']) ex_store 0 0)))) =
     [\<lparr>Elem = ''a'', Score = 1\<rparr>, \<lparr>Elem = ''b'', Score = 2\<rparr>, \<lparr>Elem = ''c'', Score = 3\<rparr>] \<and>
   fst (Get (snd (UnionCmd_Store (ex_union None (Some Handle) ''d'' [''x'']) ex_store 0 0))
          0 ''d'') = Inr ex_dest"
proof -
  let ?c = "ex_inter (Some Handle) None ''d'' [''x'', ''q'']"
  let ?u = "ex_union None (Some Handle) ''d'' [''x'']"
  have 1: "wf ex_store" by (rule wf_ex_store)
  have 2: "InterCmd.db ?c \<noteq> None \<or> InterCmd.tx ?c \<noteq> None" by (simp add: ex_inter_def)
  have 3: "\<forall>k \<in> set (rkey ex_store). Key k = InterCmd.dest ?c \<longrightarrow>
             Type k = TypeSortedSet \<and> live (UnixMilli 0) k"
    by (simp add: ex_inter_def ex_store_def ex_x_def ex_s_def)
  have 4: "UnionCmd.db ?u \<noteq> None \<or> UnionCmd.tx ?u \<noteq> None" by (simp add: ex_union_def)
  have 5: "\<forall>k \<in> set (rkey ex_store). Key k = UnionCmd.dest ?u \<longrightarrow>
             Type k = TypeSortedSet \<and> live (UnixMilli 0) k"
    by (simp add: ex_union_def ex_store_def ex_x_def ex_s_def)
  have c: "InterCmd.dest ?c = ''d'' \<and> InterCmd.keys ?c = [''x'', ''q''] \<and>
           InterCmd.aggregate ?c = sqlx_Sum"
    by (simp add: ex_inter_def)
  have u: "UnionCmd.dest ?u = ''d'' \<and> UnionCmd.keys ?u = [''x''] \<and>
           UnionCmd.aggregate ?u = sqlx_Sum"
    by (simp add: ex_union_def)
  have d: "\<lparr>ID = 3, Key = ''d'', Type = TypeSortedSet, Version = InitialVersion, ETime = None,
            MTime = UnixMilli 0\<rparr> = ex_dest"
    by (simp add: ex_dest_def UnixMilli_def)
  have i: "ID ex_dest = 3" by (simp add: ex_dest_def)
  have f: "filter (\<lambda>z. key_id z = 3) (rzset ex_store) = []" by (simp add: ex_store_def)
  have n: "''d'' \<notin> set (map Key (rkey ex_store))"
    by (simp add: ex_store_def ex_x_def ex_s_def)
  show ?thesis
    using 1 n store_returns_inserted_count [OF 1 2 3 4 5, of 0 0]
    by (simp add: Let_def c u ex_delete_dest ex_next_id d i f ex_inter_dest ex_union_dest)
qed

section \<open>The intersection of a set with itself\<close>

text \<open>
  With a name listed twice, \<open>:nkeys\<close> is the length of the list, while every group
  has rows of at most as many keys as there are different names: no group passes
  \<open>having count(distinct key_id) = :nkeys\<close>.
\<close>

lemma sqlInter_duplicate_keys:
  assumes "wf s" and "\<not> distinct ks"
  shows "sqlInter a s now ks (int (length ks)) = []"
proof -
  let ?A = "{k \<in> set (rkey s). Key k \<in> set ks}"
  have inj: "inj_on Key (set (rkey s))"
    using assms(1) by (simp add: wf_def distinct_map)
  have "card (ID ` ?A) \<le> card ?A" by (simp add: card_image_le)
  also have "\<dots> = card (Key ` ?A)"
    by (rule card_image [symmetric]) (rule inj_on_subset [OF inj], auto)
  also have "\<dots> \<le> card (set ks)" by (rule card_mono) auto
  also have "\<dots> < length ks"
  proof -
    have "card (set ks) \<noteq> length ks" using assms(2) card_distinct by blast
    then show ?thesis using card_length [of ks] by linarith
  qed
  finally have small: "card (ID ` ?A) < length ks" .
  define R where "R = zset_join s now (\<lambda>name. name \<in> set ks)"
  have R: "key_id ` set R \<subseteq> ID ` ?A"
    unfolding R_def set_zset_join by blast
  have "\<not> (case eg of (e, g) \<Rightarrow> int (length (remdups (map key_id g))) = int (length ks))"
    if "eg \<in> set (group_by_elem R)" for eg
  proof -
    obtain e g where eg: "eg = (e, g)" by (cases eg)
    have "g = filter (\<lambda>z. elem z = e) R"
      using that unfolding eg group_by_elem_def by auto
    then have "set g \<subseteq> set R" by simp
    then have "key_id ` set g \<subseteq> ID ` ?A" using R by blast
    then have "card (key_id ` set g) \<le> card (ID ` ?A)" by (simp add: card_mono)
    moreover have "length (remdups (map key_id g)) = card (key_id ` set g)"
      by (simp add: length_remdups_card_conv)
    ultimately show ?thesis using small unfolding eg by simp
  qed
  then have "filter (\<lambda>(e, g). int (length (remdups (map key_id g))) = int (length ks))
               (group_by_elem R) = []"
    unfolding filter_empty_conv by blast
  then show ?thesis unfolding sqlInter_def R_def [symmetric] by (simp add: select_agg_def)
qed

lemma ex_inter_self: "sqlInter a ex_store (UnixMilli 0) [''x'', ''x''] 2 = []"
  by (simp add: sqlInter_def ex_inter_rows ex_inter_groups select_agg_def)

lemma ex_inter_single:
  "sqlInter sqlx_Sum ex_store (UnixMilli 0) [''x''] 1 =
     [\<lparr>Elem = ''a'', Score = 1\<rparr>, \<lparr>Elem = ''b'', Score = 2\<rparr>, \<lparr>Elem = ''c'', Score = 3\<rparr>]"
  by (simp add: sqlInter_def ex_inter_rows ex_inter_groups select_agg_def)

text \<open>
  Claim C3. The claim has the intersection of \<open>x\<close> with itself return the elements of
  \<open>x\<close>, with doubled scores under \<open>sum\<close>. On the example store, where
  \<open>x = {(a, 1), (b, 2), (c, 3)}\<close>, \<open>Run\<close> over the keys \<open>[x, x]\<close> returns the empty
  result under each of the three aggregates; over the single key \<open>[x]\<close> it returns the
  elements of \<open>x\<close> with their scores.
\<close>

theorem inter_with_itself_is_empty:
  "fst (InterCmd_Run (InterCmd_Sum (ex_inter None (Some Handle) [] [''x'', ''x''])) ex_store 0) = Inr [] \<and>
   fst (InterCmd_Run (InterCmd_Min (ex_inter None (Some Handle) [] [''x'', ''x''])) ex_store 0) = Inr [] \<and>
   fst (InterCmd_Run (InterCmd_Max (ex_inter None (Some Handle) [] [''x'', ''x''])) ex_store 0) = Inr [] \<and>
   fst (InterCmd_Run (InterCmd_Sum (ex_inter None (Some Handle) [] [''x''])) ex_store 0) =
     Inr [\<lparr>Elem = ''a'', Score = 1\<rparr>, \<lparr>Elem = ''b'', Score = 2\<rparr>, \<lparr>Elem = ''c'', Score = 3\<rparr>]"
  by (simp add: InterCmd_Run_def InterCmd_inter_def InterCmd_Sum_def InterCmd_Min_def
      InterCmd_Max_def ex_inter_def ex_inter_self ex_inter_single)

section \<open>Ranges\<close>

lemma apply_limit_cases:
  "apply_limit (if 0 < off \<and> 0 < n then LimitOffsetCount off n
                else if 0 < n then LimitCount n
                else if 0 < off then LimitOffsetCount off (- 1)
                else NoLimit) xs =
   (if 0 < off \<and> 0 < n then take (nat n) (drop (nat off) xs)
    else if 0 < n then take (nat n) xs
    else if 0 < off then drop (nat off) xs
    else xs)"
  by (simp add: sql_limit_offset_def sql_limit_def)

text \<open>
  Claim C7. A range by score returns the matching elements in order, after the offset
  and the count: both positive, it skips \<open>offset\<close> elements and returns at most
  \<open>count\<close>; only the count positive, at most \<open>count\<close> from the start; only the offset
  positive, all elements after the first \<open>offset\<close>; neither, all of them.
\<close>

theorem rangeScore_offset_count:
  assumes "byScore c = Some r"
  shows "fst (RangeCmd_rangeScore c s t) =
    Inr (let m = sqlRangeScore (sortDir c) s (UnixMilli t) (key c) (byScore.start r) (byScore.stop r)
         in if 0 < offset c \<and> 0 < count c then take (nat (count c)) (drop (nat (offset c)) m)
            else if 0 < count c then take (nat (count c)) m
            else if 0 < offset c then drop (nat (offset c)) m
            else m)"
  using assms by (simp add: RangeCmd_rangeScore_def apply_limit_cases Let_def)

lemma ex_range_score:
  "sqlRangeScore sqlx_Asc ex_store (UnixMilli 0) ''x'' 1 3 =
     [\<lparr>Elem = ''a'', Score = 1\<rparr>, \<lparr>Elem = ''b'', Score = 2\<rparr>, \<lparr>Elem = ''c'', Score = 3\<rparr>]"
  by (simp add: sqlRangeScore_def zset_join_def ex_store_def ex_x_def ex_s_def live_def dir_le_def)

theorem rangeScore_offset_count_witness:
  "byScore (ex_score 1 1) = Some \<lparr>byScore.start = 1, byScore.stop = 3\<rparr> \<and>
   fst (RangeCmd_rangeScore (ex_score 1 1) ex_store 0) = Inr [\<lparr>Elem = ''b'', Score = 2\<rparr>] \<and>
   fst (RangeCmd_rangeScore (ex_score 0 2) ex_store 0) =
     Inr [\<lparr>Elem = ''a'', Score = 1\<rparr>, \<lparr>Elem = ''b'', Score = 2\<rparr>] \<and>
   fst (RangeCmd_rangeScore (ex_score 1 0) ex_store 0) =
     Inr [\<lparr>Elem = ''b'', Score = 2\<rparr>, \<lparr>Elem = ''c'', Score = 3\<rparr>] \<and>
   fst (RangeCmd_rangeScore (ex_score 0 0) ex_store 0) =
     Inr [\<lparr>Elem = ''a'', Score = 1\<rparr>, \<lparr>Elem = ''b'', Score = 2\<rparr>, \<lparr>Elem = ''c'', Score = 3\<rparr>]"
proof -
  have h: "byScore (ex_score off n) = Some \<lparr>byScore.start = 1, byScore.stop = 3\<rparr>" for off n
    by (simp add: ex_score_def)
  have f: "key (ex_score off n) = ''x'' \<and> sortDir (ex_score off n) = sqlx_Asc \<and>
           offset (ex_score off n) = off \<and> count (ex_score off n) = n" for off n
    by (simp add: ex_score_def)
  show ?thesis
    using h [of 1 1]
      rangeScore_offset_count [OF h [of 1 1], of ex_store 0]
      rangeScore_offset_count [OF h [of 0 2], of ex_store 0]
      rangeScore_offset_count [OF h [of 1 0], of ex_store 0]
      rangeScore_offset_count [OF h [of 0 0], of ex_store 0]
    by (simp add: f ex_range_score)
qed

text \<open>
  Claim C8. A range by rank with a negative start or a negative stop is empty whatever
  the store holds, raises no error and executes no statement.
\<close>

theorem rangeRank_negative_empty:
  assumes "byRank c = Some r" and "byRank.start r < 0 \<or> byRank.stop r < 0"
  shows "RangeCmd_rangeRank c s t = (Inr [], s) \<and> RangeCmd_Run c s t = (Inr [], s)"
  using assms by (simp add: RangeCmd_rangeRank_def RangeCmd_Run_def)

theorem rangeRank_negative_empty_witness:
  "byRank ex_rank = Some \<lparr>byRank.start = - 1, byRank.stop = 5\<rparr> \<and>
   (byRank.start \<lparr>byRank.start = - 1, byRank.stop = 5\<rparr> < 0 \<or>
    byRank.stop \<lparr>byRank.start = - 1, byRank.stop = 5\<rparr> < 0) \<and>
   rzset ex_store \<noteq> [] \<and>
   RangeCmd_rangeRank ex_rank ex_store 0 = (Inr [], ex_store) \<and>
   RangeCmd_Run ex_rank ex_store 0 = (Inr [], ex_store)"
proof -
  have 1: "byRank ex_rank = Some \<lparr>byRank.start = - 1, byRank.stop = 5\<rparr>"
    by (simp add: ex_rank_def)
  have 2: "byRank.start \<lparr>byRank.start = - 1, byRank.stop = 5\<rparr> < 0 \<or>
           byRank.stop \<lparr>byRank.start = - 1, byRank.stop = 5\<rparr> < 0"
    by simp
  have 3: "rzset ex_store \<noteq> []" by (simp add: ex_store_def)
  show ?thesis using 1 2 3 rangeRank_negative_empty [OF 1 2, of ex_store 0] by simp
qed

section \<open>Commands without a handle\<close>

text \<open>
  Claim C10. An intersect or union command with neither a database handle nor a
  transaction handle returns the empty result from \<open>Run\<close> and 0 from \<open>Store\<close>, both
  without an error, and the store is the same afterwards, the count of executed
  statements included.
\<close>

theorem no_handle_noop:
  assumes "InterCmd.db c = None" and "InterCmd.tx c = None"
    and "UnionCmd.db u = None" and "UnionCmd.tx u = None"
  shows "InterCmd_Run c s t = (Inr [], s) \<and> InterCmd_Store c s t1 t2 = (Inr 0, s) \<and>
         UnionCmd_Run u s t = (Inr [], s) \<and> UnionCmd_Store u s t1 t2 = (Inr 0, s)"
  using assms
  by (simp add: InterCmd_Run_def InterCmd_Store_def UnionCmd_Run_def UnionCmd_Store_def)

theorem no_handle_noop_witness:
  "InterCmd.db (ex_inter None None ''d'' [''x'']) = None \<and>
   InterCmd.tx (ex_inter None None ''d'' [''x'']) = None \<and>
   UnionCmd.db (ex_union None None ''d'' [''x'']) = None \<and>
   UnionCmd.tx (ex_union None None ''d'' [''x'']) = None \<and>
   InterCmd_Run (ex_inter None None ''d'' [''x'']) ex_store 0 = (Inr [], ex_store) \<and>
   InterCmd_Store (ex_inter None None ''d'' [''x'']) ex_store 0 0 = (Inr 0, ex_store) \<and>
   UnionCmd_Run (ex_union None None ''d'' [''x'']) ex_store 0 = (Inr [], ex_store) \<and>
   UnionCmd_Store (ex_union None None ''d'' [''x'']) ex_store 0 0 = (Inr 0, ex_store)"
proof -
  have 1: "InterCmd.db (ex_inter None None ''d'' [''x'']) = None"
    and 2: "InterCmd.tx (ex_inter None None ''d'' [''x'']) = None"
    by (simp_all add: ex_inter_def)
  have 3: "UnionCmd.db (ex_union None None ''d'' [''x'']) = None"
    and 4: "UnionCmd.tx (ex_union None None ''d'' [''x'']) = None"
    by (simp_all add: ex_union_def)
  show ?thesis using 1 2 3 4 no_handle_noop [OF 1 2 3 4, of ex_store 0 0 0] by simp
qed

section \<open>Expiry\<close>

lemma update_etime_unique:
  assumes "distinct (map Key (rkey s))" and "k \<in> set (rkey s)" and "live now k"
  shows "update_etime (Key k) now e s =
           (s\<lparr>rkey := map (\<lambda>x. if x = k then k\<lparr>ETime := e\<rparr> else x) (rkey s)\<rparr>, 1)"
proof -
  have "(Key x = Key k \<and> live now x) = (x = k)" if "x \<in> set (rkey s)" for x
    using key_inj [OF assms(1) that assms(2)] assms(3) by auto
  then have "map (\<lambda>x. if Key x = Key k \<and> live now x then x\<lparr>ETime := e\<rparr> else x) (rkey s) =
             map (\<lambda>x. if x = k then k\<lparr>ETime := e\<rparr> else x) (rkey s)"
    by (intro map_cong) auto
  moreover have "filter (\<lambda>x. Key x = Key k \<and> live now x) (rkey s) = [k]"
    using filter_key_unique [OF assms(1,2), of "live now"] assms(3) by simp
  ultimately show ?thesis by (simp add: update_etime_def)
qed

text \<open>
  Claim C9. Let \<open>pre\<close> be the record of the key, live when \<open>expire\<close> runs, and let the
  new expiry \<open>t0 + ttl\<close> not have passed when \<open>persist\<close> runs (with a clock that does
  not go back this makes \<open>ttl\<close> positive). Both calls report an update, \<open>get\<close> between
  them returns the record with the new expiry, and \<open>get\<close> after them, at any time,
  returns the record with no expiry.
\<close>

theorem expire_then_persist_clears_etime:
  assumes "wf s" and "pre \<in> set (rkey s)" and "live (UnixMilli t1) pre"
    and "UnixMilli t2 < UnixMilli (Add t0 ttl)"
  shows "(let r1 = Tx_Expire s t0 t1 (Key pre) ttl;
              r2 = Tx_Persist (snd r1) t2 (Key pre);
              r3 = Get (snd r2) t3 (Key pre)
          in fst r1 = Inr True \<and>
             fst (Get (snd r1) t2 (Key pre)) =
               Inr (pre\<lparr>ETime := Some (UnixMilli (Add t0 ttl))\<rparr>) \<and>
             fst r2 = Inr True \<and>
             fst r3 = Inr (pre\<lparr>ETime := None\<rparr>) \<and> Exists (pre\<lparr>ETime := None\<rparr>))"
proof -
  define pre1 where "pre1 = pre\<lparr>ETime := Some (UnixMilli (Add t0 ttl))\<rparr>"
  define s1 where "s1 = stmt (s\<lparr>rkey := map (\<lambda>x. if x = pre then pre1 else x) (rkey s)\<rparr>)"
  define s2 where "s2 = stmt (s1\<lparr>rkey := map (\<lambda>x. if x = pre1 then pre\<lparr>ETime := None\<rparr> else x)
                                          (rkey s1)\<rparr>)"
  have d: "distinct (map Key (rkey s))" using assms(1) by (simp add: wf_def)
  have r1: "Tx_Expire s t0 t1 (Key pre) ttl = (Inr True, s1)"
    using update_etime_unique [OF d assms(2,3)]
    by (simp add: Tx_Expire_def Tx_ExpireAt_def s1_def pre1_def)
  have k1: "Key pre1 = Key pre" by (simp add: pre1_def)
  have d1: "distinct (map Key (rkey s1))" and m1: "pre1 \<in> set (rkey s1)"
    using replace_row [OF d assms(2) k1] by (simp_all add: s1_def)
  have l1: "live (UnixMilli t2) pre1" using assms(4) by (simp add: live_def pre1_def)
  have e1: "pre1\<lparr>ETime := None\<rparr> = pre\<lparr>ETime := None\<rparr>" by (simp add: pre1_def)
  have g1: "fst (Get s1 t2 (Key pre)) = Inr pre1"
    using sqlGet_unique [OF d1 m1 l1] by (simp add: Get_def k1)
  have r2: "Tx_Persist s1 t2 (Key pre) = (Inr True, s2)"
    using update_etime_unique [OF d1 m1 l1, of None]
    by (simp add: Tx_Persist_def s2_def k1 e1)
  have k2: "Key (pre\<lparr>ETime := None\<rparr>) = Key pre1" by (simp add: pre1_def)
  have d2: "distinct (map Key (rkey s2))" and m2: "pre\<lparr>ETime := None\<rparr> \<in> set (rkey s2)"
    using replace_row [OF d1 m1 k2] by (simp_all add: s2_def)
  have l2: "live (UnixMilli t3) (pre\<lparr>ETime := None\<rparr>)" by (simp add: live_def)
  have r3: "fst (Get s2 t3 (Key pre)) = Inr (pre\<lparr>ETime := None\<rparr>)"
    using sqlGet_unique [OF d2 m2 l2] by (simp add: Get_def)
  have "0 < ID pre" using assms(1,2) by (simp add: wf_def)
  then have "ID (pre\<lparr>ETime := None\<rparr>) \<noteq> ID Key0" by (simp add: Key0_def)
  then have "Exists (pre\<lparr>ETime := None\<rparr>)" unfolding Exists_def by metis
  then show ?thesis using g1 by (simp add: Let_def r1 r2 r3 pre1_def)
qed

theorem expire_then_persist_clears_etime_witness:
  "wf ex_store \<and> ex_x \<in> set (rkey ex_store) \<and> live (UnixMilli 1000000) ex_x \<and>
   UnixMilli 2000000 < UnixMilli (Add 0 60000000) \<and>
   fst (Tx_Expire ex_store 0 1000000 ''x'' 60000000) = Inr True \<and>
   fst (Get (snd (Tx_Expire ex_store 0 1000000 ''x'' 60000000)) 2000000 ''x'') =
     Inr (ex_x\<lparr>ETime := Some 60\<rparr>) \<and>
   fst (Tx_Persist (snd (Tx_Expire ex_store 0 1000000 ''x'' 60000000)) 2000000 ''x'') = Inr True \<and>
   fst (Get (snd (Tx_Persist (snd (Tx_Expire ex_store 0 1000000 ''x'' 60000000)) 2000000 ''x''))
          3000000 ''x'') = Inr ex_x \<and>
   ETime ex_x = None \<and> Exists ex_x"
proof -
  have 1: "wf ex_store" by (rule wf_ex_store)
  have 2: "ex_x \<in> set (rkey ex_store)" by (simp add: ex_store_def)
  have 3: "live (UnixMilli 1000000) ex_x" by (simp add: live_def ex_x_def)
  have 4: "UnixMilli 2000000 < UnixMilli (Add 0 60000000)" by (simp add: UnixMilli_def Add_def)
  have a: "UnixMilli (Add 0 60000000) = 60" by (simp add: UnixMilli_def Add_def)
  have k: "Key ex_x = ''x''" and e: "ex_x\<lparr>ETime := None\<rparr> = ex_x" by (simp_all add: ex_x_def)
  show ?thesis
    using 1 2 3 4 expire_then_persist_clears_etime [OF 1 2 3 4, of 3000000]
    by (simp add: Let_def k e a) (simp add: ex_x_def)
qed

section \<open>Rename\<close>

lemma Delete_eq:
  "Delete s t ks =
     (Inr (int (snd (delete_where (\<lambda>k. Key k \<in> set ks \<and> live (UnixMilli t) k) s))),
      stmt (fst (delete_where (\<lambda>k. Key k \<in> set ks \<and> live (UnixMilli t) k) s)))"
  by (simp add: Delete_def split: prod.split)

lemma sqlRename_rows:
  assumes "wf s" and "pre \<in> set (rkey s)" and "live now pre" and "b \<noteq> Key pre"
  defines "s3 \<equiv> fst (delete_where (\<lambda>k. Key k = b \<and> \<not> (Key k = Key pre \<and> live now k)) s)"
  shows "rkey (sqlRename s (Key pre) b now) =
           map (\<lambda>x. if x = pre then pre\<lparr>Key := b, Version := Version pre + 1, MTime := now\<rparr>
                     else x) (rkey s3)"
    and "rzset (sqlRename s (Key pre) b now) = rzset s3"
    and "wf s3" and "pre \<in> set (rkey s3)"
    and "\<forall>x \<in> set (rkey s3). x \<noteq> pre \<longrightarrow> Key x \<noteq> b \<and> Key x \<noteq> Key pre"
proof -
  have d: "distinct (map Key (rkey s))" using assms(1) by (simp add: wf_def)
  have g: "sqlGet s (Key pre) now = [pre]" by (rule sqlGet_unique [OF d assms(2,3)])
  show wf3: "wf s3" unfolding s3_def by (rule wf_delete_where [OF assms(1)])
  have rk3: "rkey s3 = filter (\<lambda>k. Key k \<noteq> b) (rkey s)"
    using assms(4) by (auto simp: s3_def rkey_delete_where intro: filter_cong)
  show in3: "pre \<in> set (rkey s3)" using assms(2,4) by (simp add: rk3)
  have d3: "distinct (map Key (rkey s3))" using wf3 by (simp add: wf_def)
  have row: "(Key x = Key pre \<and> live now x) = (x = pre)" if "x \<in> set (rkey s3)" for x
    using key_inj [OF d3 that in3] assms(3) by auto
  have "rkey (sqlRename s (Key pre) b now) =
          map (\<lambda>k. if Key k = Key pre \<and> live now k
                    then k\<lparr>ID := ID pre, Key := b, Type := Type pre,
                           Version := Version pre + 1, ETime := ETime pre, MTime := now\<rparr>
                    else k) (rkey s3)"
    by (simp add: sqlRename_def g s3_def split: prod.split)
  also have "\<dots> = map (\<lambda>x. if x = pre
                           then pre\<lparr>Key := b, Version := Version pre + 1, MTime := now\<rparr>
                           else x) (rkey s3)"
    by (intro map_cong refl) (simp add: row)
  finally show "rkey (sqlRename s (Key pre) b now) =
           map (\<lambda>x. if x = pre then pre\<lparr>Key := b, Version := Version pre + 1, MTime := now\<rparr>
                     else x) (rkey s3)" .
  show "rzset (sqlRename s (Key pre) b now) = rzset s3"
    by (simp add: sqlRename_def g s3_def split: prod.split)
  show "\<forall>x \<in> set (rkey s3). x \<noteq> pre \<longrightarrow> Key x \<noteq> b \<and> Key x \<noteq> Key pre"
    using key_inj [OF d3 _ in3] by (auto simp: rk3)
qed

lemma sqlRename_unique:
  assumes "wf s" and "pre \<in> set (rkey s)" and "live now pre" and "b \<noteq> Key pre"
  defines "pre' \<equiv> pre\<lparr>Key := b, Version := Version pre + 1, MTime := now\<rparr>"
  shows "sqlGet (sqlRename s (Key pre) b now) (Key pre) now' = []"
    and "live now' pre \<Longrightarrow> sqlGet (sqlRename s (Key pre) b now) b now' = [pre']"
proof -
  define s3 where
    "s3 = fst (delete_where (\<lambda>k. Key k = b \<and> \<not> (Key k = Key pre \<and> live now k)) s)"
  note rows = sqlRename_rows [OF assms(1-4), folded s3_def pre'_def]
  have "Key y \<noteq> Key pre" if "y \<in> set (rkey (sqlRename s (Key pre) b now))" for y
    using that rows(5) assms(4) unfolding rows(1) by (auto simp: pre'_def)
  then show "sqlGet (sqlRename s (Key pre) b now) (Key pre) now' = []"
    by (intro sqlGet_none) blast
  show "sqlGet (sqlRename s (Key pre) b now) b now' = [pre']" if "live now' pre"
  proof -
    have dr: "distinct (rkey s3)" using rows(3) by (simp add: wf_def distinct_map)
    have q: "Key pre' = b \<and> live now' pre'" using that by (simp add: pre'_def live_def)
    have o: "\<forall>x \<in> set (rkey s3). x \<noteq> pre \<longrightarrow> \<not> (Key x = b \<and> live now' x)"
      using rows(5) by blast
    show ?thesis
      unfolding sqlGet_def rows(1)
      by (rule filter_replaced [where Q = "\<lambda>k. Key k = b \<and> live now' k", OF dr rows(4) o q])
  qed
qed

lemma ex_rename_same:
  "Tx_Rename ex_store 0 0 0 ''x'' ''x'' = (None, stmt ex_store)"
proof -
  have "sqlGet ex_store ''x'' (UnixMilli 0) = [ex_x]"
    by (simp add: sqlGet_def ex_store_def ex_x_def ex_s_def live_def)
  moreover have "Exists ex_x" by (simp add: Exists_def Key0_def ex_x_def)
  ultimately show ?thesis by (simp add: Tx_Rename_def Get_def)
qed

text \<open>
  Claim C5, as stated, fails when the new name is the old one: \<open>Rename\<close> then returns
  before any change, so \<open>get\<close> of the name still returns the record, with its version
  unchanged.
\<close>

theorem rename_same_name_counterexample:
  "ex_x \<in> set (rkey ex_store) \<and> live (UnixMilli 0) ex_x \<and> Key ex_x = ''x'' \<and>
   fst (Tx_Rename ex_store 0 0 0 ''x'' ''x'') = None \<and>
   fst (Get (snd (Tx_Rename ex_store 0 0 0 ''x'' ''x'')) 0 ''x'') = Inr ex_x \<and>
   ex_x \<noteq> Key0 \<and> Version ex_x \<noteq> Version ex_x + 1"
proof -
  have "sqlGet ex_store ''x'' (UnixMilli 0) = [ex_x]"
    by (simp add: sqlGet_def ex_store_def ex_x_def ex_s_def live_def)
  then have "fst (Get (stmt ex_store) 0 ''x'') = Inr ex_x" by (simp add: Get_def)
  moreover have "ex_x \<in> set (rkey ex_store)" by (simp add: ex_store_def)
  moreover have "live (UnixMilli 0) ex_x \<and> Key ex_x = ''x'' \<and> ex_x \<noteq> Key0"
    by (simp add: live_def ex_x_def Key0_def)
  ultimately show ?thesis by (simp add: ex_rename_same)
qed

text \<open>
  Claim C5, amended: for a name \<open>b\<close> other than the old one. Let \<open>pre\<close> be the record
  of the old name, live when \<open>Rename\<close> reads it (\<open>t1\<close>), when the update runs (\<open>t3\<close>)
  and when \<open>get\<close> runs (\<open>t4\<close>). \<open>Rename\<close> succeeds, \<open>get\<close> of the old name returns the
  empty record, and \<open>get\<close> of \<open>b\<close> returns \<open>pre\<close> with the name \<open>b\<close>, the version
  plus one and the modification time of the update: identity, type and expiry are
  those of \<open>pre\<close>.
\<close>

theorem rename_moves_record:
  assumes "wf s" and "pre \<in> set (rkey s)"
    and "live (UnixMilli t1) pre" and "live (UnixMilli t3) pre" and "live (UnixMilli t4) pre"
    and "b \<noteq> Key pre"
  shows "(let r = Tx_Rename s t1 t2 t3 (Key pre) b
          in fst r = None \<and>
             fst (Get (snd r) t4 (Key pre)) = Inr Key0 \<and>
             fst (Get (snd r) t4 b) =
               Inr (pre\<lparr>Key := b, Version := Version pre + 1, MTime := UnixMilli t3\<rparr>))"
proof -
  define s2 where
    "s2 = stmt (fst (delete_where (\<lambda>k. Key k \<in> set [b] \<and> live (UnixMilli t2) k) (stmt s)))"
  define s' where "s' = sqlRename s2 (Key pre) b (UnixMilli t3)"
  have d: "distinct (map Key (rkey s))" using assms(1) by (simp add: wf_def)
  have g: "Get s t1 (Key pre) = (Inr pre, stmt s)"
    using sqlGet_unique [OF d assms(2,3)] by (simp add: Get_def)
  have "0 < ID pre" using assms(1,2) by (simp add: wf_def)
  then have "ID pre \<noteq> ID Key0" by (simp add: Key0_def)
  then have ex: "Exists pre" unfolding Exists_def by metis
  have del: "Delete (stmt s) t2 [b] =
               (Inr (int (snd (delete_where (\<lambda>k. Key k \<in> set [b] \<and> live (UnixMilli t2) k)
                                 (stmt s)))), s2)"
    unfolding s2_def by (rule Delete_eq)
  have r: "Tx_Rename s t1 t2 t3 (Key pre) b = (None, stmt s')"
    using assms(6) by (simp add: Tx_Rename_def g ex del s'_def)
  have wf2: "wf s2"
    unfolding s2_def using wf_delete_where [of "stmt s"] assms(1) by simp
  have in2: "pre \<in> set (rkey s2)"
    using assms(2,6) by (simp add: s2_def rkey_delete_where)
  note ren = sqlRename_unique [OF wf2 in2 assms(4,6)]
  have a: "fst (Get (stmt s') t4 (Key pre)) = Inr Key0"
    using ren(1) [of "UnixMilli t4"] by (simp add: Get_def s'_def)
  have b: "fst (Get (stmt s') t4 b) =
             Inr (pre\<lparr>Key := b, Version := Version pre + 1, MTime := UnixMilli t3\<rparr>)"
    using ren(2) [OF assms(5)] by (simp add: Get_def s'_def)
  show ?thesis by (simp add: Let_def r a b)
qed

theorem rename_moves_record_witness:
  "wf ex_store \<and> ex_x \<in> set (rkey ex_store) \<and> live (UnixMilli 0) ex_x \<and> ''s'' \<noteq> Key ex_x \<and>
   ex_s \<in> set (rkey ex_store) \<and> Key ex_s = ''s'' \<and>
   fst (Tx_Rename ex_store 0 0 0 ''x'' ''s'') = None \<and>
   fst (Get (snd (Tx_Rename ex_store 0 0 0 ''x'' ''s'')) 0 ''x'') = Inr Key0 \<and>
   fst (Get (snd (Tx_Rename ex_store 0 0 0 ''x'' ''s'')) 0 ''s'') =
     Inr \<lparr>ID = 1, Key = ''s'', Type = TypeSortedSet, Version = 2, ETime = None, MTime = 0\<rparr>"
proof -
  have 1: "wf ex_store" by (rule wf_ex_store)
  have 2: "ex_x \<in> set (rkey ex_store)" by (simp add: ex_store_def)
  have 3: "live (UnixMilli 0) ex_x" by (simp add: live_def ex_x_def)
  have 4: "''s'' \<noteq> Key ex_x" by (simp add: ex_x_def)
  have 5: "ex_s \<in> set (rkey ex_store) \<and> Key ex_s = ''s''" by (simp add: ex_store_def ex_s_def)
  have k: "Key ex_x = ''x''" by (simp add: ex_x_def)
  have e: "ex_x\<lparr>Key := ''s'', Version := Version ex_x + 1, MTime := UnixMilli 0\<rparr> =
           \<lparr>ID = 1, Key = ''s'', Type = TypeSortedSet, Version = 2, ETime = None, MTime = 0\<rparr>"
    by (simp add: ex_x_def UnixMilli_def)
  show ?thesis
    using 1 2 3 4 5 rename_moves_record [OF 1 2 3 3 3 4, of 0]
    by (simp add: Let_def k e)
qed

section \<open>The operations keep the store well-formed\<close>

text \<open>
  The theorems assume a well-formed store. The example store is well-formed, and the
  operations of the model that write to the store keep it so.
\<close>

lemma wf_tables:
  assumes "rkey s' = rkey s" and "rzset s' = rzset s"
  shows "wf s' = wf s"
  using assms by (simp add: wf_def)

lemma wf_update_etime:
  assumes "wf s"
  shows "wf (fst (update_etime name now e s))"
proof -
  let ?f = "\<lambda>k. if Key k = name \<and> live now k then k\<lparr>ETime := e\<rparr> else k"
  let ?s' = "fst (update_etime name now e s)"
  have rk: "rkey ?s' = map ?f (rkey s)" and rz: "rzset ?s' = rzset s"
    by (simp_all add: update_etime_def)
  have i: "map ID (map ?f (rkey s)) = map ID (rkey s)" by (induction "rkey s") auto
  have k: "map Key (map ?f (rkey s)) = map Key (rkey s)" by (induction "rkey s") auto
  have p: "\<forall>x \<in> set (map ?f (rkey s)). 0 < ID x" using assms by (auto simp: wf_def)
  show ?thesis
    unfolding wf_def rk rz i k using assms p by (simp add: wf_def)
qed

lemma wf_stored:
  fixes q :: "SetItem list"
  assumes "wf s1" and "ID d = next_id (rkey s1)" and "\<forall>k \<in> set (rkey s1). Key k \<noteq> Key d"
    and "distinct (map Elem q)"
  shows "wf (s1\<lparr>rkey := rkey s1 @ [d],
               rzset := rzset s1 @ map (\<lambda>it. \<lparr>key_id = ID d, elem = Elem it, score = Score it\<rparr>) q\<rparr>)"
proof -
  let ?new = "map (\<lambda>it. \<lparr>key_id = ID d, elem = Elem it, score = Score it\<rparr>) q"
  have 1: "sorted_wrt (<) (map ID (rkey s1 @ [d]))"
    using assms(1,2) next_id_fresh [of _ "rkey s1"]
    by (auto simp: wf_def sorted_wrt_append)
  have 2: "distinct (map Key (rkey s1 @ [d]))"
    using assms(1,3) by (auto simp: wf_def)
  have 3: "\<forall>k \<in> set (rkey s1 @ [d]). 0 < ID k"
    using assms(1,2) next_id_pos [of "rkey s1"] by (auto simp: wf_def)
  have 4: "\<forall>z \<in> set (rzset s1 @ ?new). key_id z \<in> set (map ID (rkey s1 @ [d]))"
    using assms(1) by (auto simp: wf_def)
  have fr: "\<forall>z \<in> set (rzset s1). key_id z \<noteq> ID d"
    using fresh_key_id [OF assms(1)] assms(2) by simp
  have di: "distinct (map (\<lambda>z. (key_id z, elem z)) (rzset s1))"
    using assms(1) by (simp add: wf_def)
  have "insert_rzset s1 (ID d) q = Inr (s1\<lparr>rzset := rzset s1 @ ?new\<rparr>, length q)"
    by (rule insert_rzset_fresh [OF di fr assms(4)])
  then have 5: "distinct (map (\<lambda>z. (key_id z, elem z)) (rzset s1 @ ?new))"
    unfolding insert_rzset_def Let_def by (metis Inl_Inr_False)
  show ?thesis unfolding wf_def using 1 2 3 4 5 by simp
qed

lemma wf_Tx_ExpireAt: "wf s \<Longrightarrow> wf (snd (Tx_ExpireAt s t name a))"
  using wf_update_etime [of s name "UnixMilli t" "Some (UnixMilli a)"]
  by (simp add: Tx_ExpireAt_def split: prod.split) (metis fst_conv)

lemma wf_Tx_Persist: "wf s \<Longrightarrow> wf (snd (Tx_Persist s t name))"
  using wf_update_etime [of s name "UnixMilli t" None]
  by (simp add: Tx_Persist_def split: prod.split) (metis fst_conv)

lemma wf_Delete: "wf s \<Longrightarrow> wf (snd (Delete s t ks))"
  by (simp add: Delete_eq wf_delete_where)

lemma wf_DeleteType: "wf s \<Longrightarrow> wf (snd (DeleteType s t typ ks))"
  by (simp add: DeleteType_eq wf_delete_where)

lemma wf_InterCmd_Store:
  fixes t2 :: Time
  assumes "wf s"
  shows "wf (snd (InterCmd_Store c s t1 t2))"
proof (cases "InterCmd.db c \<noteq> None \<or> InterCmd.tx c \<noteq> None")
  case False
  then show ?thesis using assms by (simp add: InterCmd_Store_def)
next
  case h: True
  show ?thesis
  proof (cases "\<forall>k \<in> set (rkey s). Key k = InterCmd.dest c \<longrightarrow>
                  Type k = TypeSortedSet \<and> live (UnixMilli t1) k")
    case True
    define s1 where "s1 = snd (DeleteType s t1 TypeSortedSet [InterCmd.dest c])"
    define d where "d = \<lparr>ID = next_id (rkey s1), Key = InterCmd.dest c, Type = TypeSortedSet,
                 Version = InitialVersion, ETime = None, MTime = UnixMilli t2\<rparr>"
    define q where "q = sqlInter (InterCmd.aggregate c) (s1\<lparr>rkey := rkey s1 @ [d]\<rparr>)
                (UnixMilli t2) (InterCmd.keys c) (int (length (InterCmd.keys c)))"
    have wf1: "wf s1" and free: "\<forall>k \<in> set (rkey s1). Key k \<noteq> Key d"
      using DeleteType_dest [OF assms True] by (simp_all add: s1_def d_def)
    have "wf (s1\<lparr>rkey := rkey s1 @ [d],
                 rzset := rzset s1 @ map (\<lambda>it. \<lparr>key_id = ID d, elem = Elem it, score = Score it\<rparr>) q\<rparr>)"
      by (rule wf_stored [OF wf1 _ free]) (simp_all add: d_def q_def distinct_Elem_sqlInter)
    moreover have st: "InterCmd_store c s t1 t2 =
      (Inr (int (length q)), stmt (stmt (s1\<lparr>rkey := rkey s1 @ [d],
         rzset := rzset s1 @ map (\<lambda>it. \<lparr>key_id = ID d, elem = Elem it, score = Score it\<rparr>) q\<rparr>)))"
      using InterCmd_store_ok [OF assms True, of t2]
      by (simp add: s1_def [symmetric] d_def [symmetric] q_def [symmetric])
    have "InterCmd_Store c s t1 t2 =
      (Inr (int (length q)), stmt (stmt (s1\<lparr>rkey := rkey s1 @ [d],
         rzset := rzset s1 @ map (\<lambda>it. \<lparr>key_id = ID d, elem = Elem it, score = Score it\<rparr>) q\<rparr>)))"
      by (rule Store_with_handle(1) [OF h st])
    then have "snd (InterCmd_Store c s t1 t2) =
      stmt (stmt (s1\<lparr>rkey := rkey s1 @ [d],
         rzset := rzset s1 @ map (\<lambda>it. \<lparr>key_id = ID d, elem = Elem it, score = Score it\<rparr>) q\<rparr>))"
      by simp
    ultimately show ?thesis by (simp only: wf_stmt)
  next
    case False
    then obtain k where k: "k \<in> set (rkey s)" and kd: "InterCmd.dest c = Key k"
      and kb: "\<not> (Type k = TypeSortedSet \<and> live (UnixMilli t1) k)" by auto
    have "rkey (snd (InterCmd_Store c s t1 t2)) = rkey s \<and>
          rzset (snd (InterCmd_Store c s t1 t2)) = rzset s"
      using Store_blocked_inserts_nothing(1) [OF assms k kb kd h] by simp
    then show ?thesis using assms wf_tables by blast
  qed
qed

lemma wf_UnionCmd_Store:
  fixes t2 :: Time
  assumes "wf s"
  shows "wf (snd (UnionCmd_Store c s t1 t2))"
proof (cases "UnionCmd.db c \<noteq> None \<or> UnionCmd.tx c \<noteq> None")
  case False
  then show ?thesis using assms by (simp add: UnionCmd_Store_def)
next
  case h: True
  show ?thesis
  proof (cases "\<forall>k \<in> set (rkey s). Key k = UnionCmd.dest c \<longrightarrow>
                  Type k = TypeSortedSet \<and> live (UnixMilli t1) k")
    case True
    define s1 where "s1 = snd (DeleteType s t1 TypeSortedSet [UnionCmd.dest c])"
    define d where "d = \<lparr>ID = next_id (rkey s1), Key = UnionCmd.dest c, Type = TypeSortedSet,
                 Version = InitialVersion, ETime = None, MTime = UnixMilli t2\<rparr>"
    define q where "q = sqlUnion (UnionCmd.aggregate c) (s1\<lparr>rkey := rkey s1 @ [d]\<rparr>)
                (UnixMilli t2) (UnionCmd.keys c)"
    have wf1: "wf s1" and free: "\<forall>k \<in> set (rkey s1). Key k \<noteq> Key d"
      using DeleteType_dest [OF assms True] by (simp_all add: s1_def d_def)
    have "wf (s1\<lparr>rkey := rkey s1 @ [d],
                 rzset := rzset s1 @ map (\<lambda>it. \<lparr>key_id = ID d, elem = Elem it, score = Score it\<rparr>) q\<rparr>)"
      by (rule wf_stored [OF wf1 _ free]) (simp_all add: d_def q_def distinct_Elem_sqlUnion)
    moreover have st: "UnionCmd_store c s t1 t2 =
      (Inr (int (length q)), stmt (stmt (s1\<lparr>rkey := rkey s1 @ [d],
         rzset := rzset s1 @ map (\<lambda>it. \<lparr>key_id = ID d, elem = Elem it, score = Score it\<rparr>) q\<rparr>)))"
      using UnionCmd_store_ok [OF assms True, of t2]
      by (simp add: s1_def [symmetric] d_def [symmetric] q_def [symmetric])
    have "UnionCmd_Store c s t1 t2 =
      (Inr (int (length q)), stmt (stmt (s1\<lparr>rkey := rkey s1 @ [d],
         rzset := rzset s1 @ map (\<lambda>it. \<lparr>key_id = ID d, elem = Elem it, score = Score it\<rparr>) q\<rparr>)))"
      by (rule Store_with_handle(2) [OF h st])
    then have "snd (UnionCmd_Store c s t1 t2) =
      stmt (stmt (s1\<lparr>rkey := rkey s1 @ [d],
         rzset := rzset s1 @ map (\<lambda>it. \<lparr>key_id = ID d, elem = Elem it, score = Score it\<rparr>) q\<rparr>))"
      by simp
    ultimately show ?thesis by (simp only: wf_stmt)
  next
    case False
    then obtain k where k: "k \<in> set (rkey s)" and kd: "UnionCmd.dest c = Key k"
      and kb: "\<not> (Type k = TypeSortedSet \<and> live (UnixMilli t1) k)" by auto
    have "rkey (snd (UnionCmd_Store c s t1 t2)) = rkey s \<and>
          rzset (snd (UnionCmd_Store c s t1 t2)) = rzset s"
      using Store_blocked_inserts_nothing(2) [OF assms k kb kd h] by simp
    then show ?thesis using assms wf_tables by blast
  qed
qed

lemma wf_sqlRename:
  assumes "wf s" and "b \<noteq> a"
  shows "wf (sqlRename s a b now)"
proof (cases "sqlGet s a now")
  case Nil
  then show ?thesis using assms(1) by (simp add: sqlRename_def)
next
  case (Cons pre rest)
  then have "pre \<in> set (sqlGet s a now)" by simp
  then have p: "pre \<in> set (rkey s)" and l: "live now pre" and a: "a = Key pre"
    by (auto simp: sqlGet_def)
  define s3 where
    "s3 = fst (delete_where (\<lambda>k. Key k = b \<and> \<not> (Key k = Key pre \<and> live now k)) s)"
  define pre' where "pre' = pre\<lparr>Key := b, Version := Version pre + 1, MTime := now\<rparr>"
  have ne: "b \<noteq> Key pre" using assms(2) a by simp
  note rows = sqlRename_rows [OF assms(1) p l ne, folded s3_def pre'_def]
  let ?g = "\<lambda>x. if x = pre then pre' else x"
  have i: "map ID (map ?g (rkey s3)) = map ID (rkey s3)"
    by (induction "rkey s3") (auto simp: pre'_def)
  have inj: "inj_on (\<lambda>x. Key (?g x)) (set (rkey s3))"
  proof (rule inj_onI)
    fix x y assume xy: "x \<in> set (rkey s3)" "y \<in> set (rkey s3)" "Key (?g x) = Key (?g y)"
    have d3: "distinct (map Key (rkey s3))" using rows(3) by (simp add: wf_def)
    show "x = y"
    proof (cases "x = pre \<or> y = pre")
      case True
      then show ?thesis using xy rows(5) by (auto simp: pre'_def split: if_splits)
    next
      case False
      then show ?thesis using xy key_inj [OF d3 xy(1,2)] by simp
    qed
  qed
  have "distinct (rkey s3)" using rows(3) by (simp add: wf_def distinct_map)
  then have k: "distinct (map Key (map ?g (rkey s3)))"
    using inj by (simp add: distinct_map comp_def)
  have w: "sorted_wrt (<) (map ID (rkey s3))" "\<forall>k \<in> set (rkey s3). 0 < ID k"
    "\<forall>z \<in> set (rzset s3). key_id z \<in> set (map ID (rkey s3))"
    "distinct (map (\<lambda>z. (key_id z, elem z)) (rzset s3))"
    using rows(3) by (simp_all add: wf_def)
  have pos: "\<forall>k \<in> set (map ?g (rkey s3)). 0 < ID k"
    using w(2) rows(4) by (auto simp: pre'_def)
  show ?thesis
    unfolding wf_def a rows(1) rows(2) i using k w pos by simp
qed

lemma wf_Tx_Rename:
  assumes "wf s"
  shows "wf (snd (Tx_Rename s t1 t2 t3 a b))"
proof -
  obtain k where g: "Get s t1 a = (Inr k, stmt s)"
    by (cases "sqlGet s a (UnixMilli t1)") (simp_all add: Get_def)
  have "wf (stmt (sqlRename (snd (Delete (stmt s) t2 [b])) a b (UnixMilli t3)))" if "a \<noteq> b"
    using wf_sqlRename [OF wf_Delete [of "stmt s" t2 "[b]"], of b a] assms that by simp
  then show ?thesis
    using assms by (auto simp: Tx_Rename_def g Delete_eq split: prod.split)
qed

section \<open>Scan\<close>

lemma maxID_loop_fold: "maxID_loop ks m = fold max (map ID ks) m"
  by (induction ks arbitrary: m) (simp_all add: max_def not_less)

lemma maxID_loop_Max: "maxID_loop ks m = Max (set (m # map ID ks))"
  unfolding maxID_loop_fold Max.set_eq_fold ..

lemma maxID_loop_positive:
  assumes "ks \<noteq> []" and "\<forall>k \<in> set ks. 0 < ID k"
  shows "maxID_loop ks 0 = Max (set (map ID ks))"
proof -
  have ne: "set (map ID ks) \<noteq> {}" using assms(1) by simp
  then have "Max (set (map ID ks)) \<in> set (map ID ks)" by (intro Max_in) simp
  then have "0 < Max (set (map ID ks))" using assms(2) by auto
  then show ?thesis using ne by (simp add: maxID_loop_Max)
qed

lemma length_sql_limit: "0 \<le> n \<Longrightarrow> int (length (sql_limit n xs)) \<le> n"
  by (simp add: sql_limit_def)

lemma set_sql_limit: "set (sql_limit n xs) \<subseteq> set xs"
  by (auto simp: sql_limit_def dest: in_set_takeD)

lemma sql_limit_empty: "n \<noteq> 0 \<Longrightarrow> (sql_limit n xs = []) = (xs = [])"
  by (auto simp: sql_limit_def)

lemma sorted_sql_limit: "sorted_wrt R xs \<Longrightarrow> sorted_wrt R (sql_limit n xs)"
  by (simp add: sql_limit_def sorted_wrt_take)

text \<open>The paths visit every row, and the table itself is in the order of the first.\<close>

lemma set_rowid_scan: "set (rowid_scan rows) = set rows"
  by (simp add: rowid_scan_def set_order_by)

lemma set_key_index_scan: "set (key_index_scan rows) = set rows"
  by (simp add: key_index_scan_def set_order_by)

lemma insert_by_first: "\<forall>y \<in> set xs. le x y \<Longrightarrow> insert_by le x xs = x # xs"
  by (cases xs) simp_all

lemma order_by_sorted: "sorted_wrt le xs \<Longrightarrow> order_by le xs = xs"
  by (induction xs) (simp_all add: insert_by_first)

lemma rowid_scan_sorted:
  assumes "sorted_wrt (<) (map ID rows)"
  shows "rowid_scan rows = rows"
proof -
  have "sorted_wrt (\<lambda>x y. ID x < ID y) rows" using assms by (simp add: sorted_wrt_map)
  then have "sorted_wrt (\<lambda>x y. ID x \<le> ID y) rows"
    by (rule sorted_wrt_mono_rel [rotated]) simp
  then show ?thesis unfolding rowid_scan_def by (rule order_by_sorted)
qed

lemma ex_page_all:
  "sqlScan glob_star rowid_scan ex_store 0 ''*'' (UnixMilli 0) 10 = [ex_x, ex_s]"
  by (simp add: sqlScan_def rowid_scan_def sql_limit_def glob_star_def live_def
      ex_store_def ex_x_def ex_s_def)

lemma ex_page_end:
  "sqlScan glob_star rowid_scan ex_store 2 ''*'' (UnixMilli 0) 10 = []"
  by (simp add: sqlScan_def rowid_scan_def sql_limit_def glob_star_def live_def
      ex_store_def ex_x_def ex_s_def)

text \<open>
  Claim C4, as stated, fails for the page size 0, which \<open>Tx.Scan\<close> replaces by the
  default page size 10: the example store has two live keys and the page holds both.
\<close>

theorem scan_default_page_counterexample:
  "fst (Tx_Scan glob_star rowid_scan ex_store 0 0 ''*'' 0) =
     Inr \<lparr>Cursor = 2, Keys = [ex_x, ex_s]\<rparr> \<and>
   \<not> int (length [ex_x, ex_s]) \<le> 0"
  by (simp add: Tx_Scan_def scanPageSize_def ex_page_all) (simp add: ex_x_def ex_s_def)

text \<open>
  Claim C4, amended: whatever path the store takes through all rows of the table, the
  page holds at most \<open>n\<close> records for a positive \<open>n\<close> and at most 10 for \<open>n = 0\<close>; every
  record of the page is a live row that matches the pattern and has an identity above
  the cursor; the cursor returned is the greatest identity of the page; and the page
  is empty exactly when no such row is left. The order of the records in the page is
  not part of the statement.
\<close>

theorem scan_page:
  assumes "wf s" and "set (path (rkey s)) = set (rkey s)"
  shows "\<exists>r. fst (Tx_Scan glob path s t c p n) = Inr r \<and>
           (0 < n \<longrightarrow> int (length (Keys r)) \<le> n) \<and>
           (n = 0 \<longrightarrow> int (length (Keys r)) \<le> scanPageSize) \<and>
           (\<forall>k \<in> set (Keys r).
              k \<in> set (rkey s) \<and> live (UnixMilli t) k \<and> glob p (Key k) \<and> c < ID k) \<and>
           (Keys r \<noteq> [] \<longrightarrow> Cursor r = Max (set (map ID (Keys r)))) \<and>
           ((Keys r = []) =
              (\<not> (\<exists>k \<in> set (rkey s). live (UnixMilli t) k \<and> glob p (Key k) \<and> c < ID k)))"
proof -
  define n' where "n' = (if n = 0 then scanPageSize else n)"
  define m where
    "m = filter (\<lambda>k. c < ID k \<and> glob p (Key k) \<and> live (UnixMilli t) k) (path (rkey s))"
  define ks where "ks = sql_limit n' m"
  have r: "fst (Tx_Scan glob path s t c p n) = Inr \<lparr>Cursor = maxID_loop ks 0, Keys = ks\<rparr>"
    by (simp add: Tx_Scan_def sqlScan_def Let_def ks_def m_def n'_def)
  have n0: "n' \<noteq> 0" by (simp add: n'_def scanPageSize_def)
  have sub: "set ks \<subseteq> set m" unfolding ks_def by (rule set_sql_limit)
  have 1: "0 < n \<longrightarrow> int (length ks) \<le> n"
    by (simp add: ks_def n'_def length_sql_limit)
  have 2: "n = 0 \<longrightarrow> int (length ks) \<le> scanPageSize"
    using length_sql_limit [of scanPageSize m] by (simp add: ks_def n'_def scanPageSize_def)
  have 3: "\<forall>k \<in> set ks. k \<in> set (rkey s) \<and> live (UnixMilli t) k \<and> glob p (Key k) \<and> c < ID k"
    using sub assms(2) by (auto simp: m_def)
  have pos: "\<forall>k \<in> set ks. 0 < ID k" using 3 assms(1) by (simp add: wf_def)
  have 4: "ks \<noteq> [] \<longrightarrow> maxID_loop ks 0 = Max (set (map ID ks))"
    using maxID_loop_positive [OF _ pos] by blast
  have "(ks = []) = (m = [])" unfolding ks_def by (rule sql_limit_empty [OF n0])
  also have "\<dots> = (\<not> (\<exists>k \<in> set (rkey s). live (UnixMilli t) k \<and> glob p (Key k) \<and> c < ID k))"
    unfolding m_def filter_empty_conv assms(2) by blast
  finally have 5: "(ks = []) =
      (\<not> (\<exists>k \<in> set (rkey s). live (UnixMilli t) k \<and> glob p (Key k) \<and> c < ID k))" .
  show ?thesis using r 1 2 3 4 5 by simp
qed

text \<open>
  The witness is a page of two records through the index on the names: the identities
  in it are 3 and 2, in this order, and the cursor returned is 3.
\<close>

lemma ex_key_index: "key_index_scan (rkey ex_keys) = [ex_k1, ex_k2, ex_k3]"
  by (simp add: key_index_scan_def ex_keys_def ex_k1_def ex_k2_def ex_k3_def)

lemma ex_keys_page:
  "sqlScan glob_star key_index_scan ex_keys 0 ''k*'' (UnixMilli 0) 2 = [ex_k1, ex_k2]"
  by (simp add: sqlScan_def ex_key_index sql_limit_def)
     (simp add: glob_star_def live_def ex_k1_def ex_k2_def ex_k3_def)

lemma ex_keys_page_end:
  "sqlScan glob_star key_index_scan ex_keys 3 ''k*'' (UnixMilli 0) 2 = []"
  by (simp add: sqlScan_def ex_key_index sql_limit_def)
     (simp add: ex_k1_def ex_k2_def ex_k3_def)

lemma wf_ex_keys: "wf ex_keys"
  by (simp add: wf_def ex_keys_def ex_k1_def ex_k2_def ex_k3_def)

theorem scan_page_witness:
  "wf ex_keys \<and> set (key_index_scan (rkey ex_keys)) = set (rkey ex_keys) \<and>
   fst (Tx_Scan glob_star key_index_scan ex_keys 0 0 ''k*'' 2) =
     Inr \<lparr>Cursor = 3, Keys = [ex_k1, ex_k2]\<rparr> \<and>
   map ID [ex_k1, ex_k2] = [3, 2] \<and>
   set [ex_k1, ex_k2] \<subseteq> set (rkey ex_keys) \<and>
   live (UnixMilli 0) ex_k1 \<and> live (UnixMilli 0) ex_k2 \<and>
   glob_star ''k*'' (Key ex_k1) \<and> glob_star ''k*'' (Key ex_k2)"
proof -
  have 1: "wf ex_keys" by (rule wf_ex_keys)
  have 2: "set (key_index_scan (rkey ex_keys)) = set (rkey ex_keys)"
    by (rule set_key_index_scan)
  have 3: "fst (Tx_Scan glob_star key_index_scan ex_keys 0 0 ''k*'' 2) =
             Inr \<lparr>Cursor = 3, Keys = [ex_k1, ex_k2]\<rparr>"
    by (simp add: Tx_Scan_def ex_keys_page) (simp add: ex_k1_def ex_k2_def)
  have 4: "map ID [ex_k1, ex_k2] = [3, 2]" by (simp add: ex_k1_def ex_k2_def)
  show ?thesis
    using 1 2 4
      scan_page [where path = key_index_scan and glob = glob_star and t = 0 and c = 0
          and p = "''k*''" and n = 2, OF 1 2]
    by (simp add: 3)
qed

text \<open>
  The order of a page. Through the table the identities of a page ascend. Through the
  index on the names they need not, and the cursor, the greatest identity of the page,
  then passes over rows never returned: after the page above, the next page from the
  cursor 3 is empty, and the live key \<open>k3\<close>, of identity 1, was on no page.
\<close>

lemma scan_rowid_ascending:
  assumes "wf s"
  shows "sorted_wrt (<) (map ID (sqlScan glob rowid_scan s c p now n))"
proof -
  have so: "sorted_wrt (<) (map ID (rkey s))" using assms by (simp add: wf_def)
  then have "sorted_wrt (<)
      (map ID (filter (\<lambda>k. c < ID k \<and> glob p (Key k) \<and> live now k) (rkey s)))"
    by (simp add: sorted_wrt_map sorted_wrt_filter)
  then show ?thesis
    unfolding sqlScan_def rowid_scan_sorted [OF so]
    by (simp add: sorted_wrt_map sorted_sql_limit)
qed

lemma scan_key_index_skips_row:
  "fst (Tx_Scan glob_star key_index_scan ex_keys 0 0 ''k*'' 2) =
     Inr \<lparr>Cursor = 3, Keys = [ex_k1, ex_k2]\<rparr> \<and>
   map ID [ex_k1, ex_k2] = [3, 2] \<and>
   fst (Tx_Scan glob_star key_index_scan ex_keys 0 3 ''k*'' 2) = Inr \<lparr>Cursor = 0, Keys = []\<rparr> \<and>
   ex_k3 \<in> set (rkey ex_keys) \<and> live (UnixMilli 0) ex_k3 \<and> glob_star ''k*'' (Key ex_k3) \<and>
   0 < ID ex_k3 \<and> ex_k3 \<notin> set [ex_k1, ex_k2]"
proof -
  have "fst (Tx_Scan glob_star key_index_scan ex_keys 0 0 ''k*'' 2) =
          Inr \<lparr>Cursor = 3, Keys = [ex_k1, ex_k2]\<rparr>"
    by (simp add: Tx_Scan_def ex_keys_page) (simp add: ex_k1_def ex_k2_def)
  moreover have "fst (Tx_Scan glob_star key_index_scan ex_keys 0 3 ''k*'' 2) =
          Inr \<lparr>Cursor = 0, Keys = []\<rparr>"
    by (simp add: Tx_Scan_def ex_keys_page_end)
  moreover have "ex_k3 \<in> set (rkey ex_keys) \<and> live (UnixMilli 0) ex_k3 \<and>
      glob_star ''k*'' (Key ex_k3) \<and> 0 < ID ex_k3 \<and> ex_k3 \<notin> set [ex_k1, ex_k2] \<and>
      map ID [ex_k1, ex_k2] = [3, 2]"
    by (simp add: ex_keys_def glob_star_def live_def ex_k1_def ex_k2_def ex_k3_def)
  ultimately show ?thesis by simp
qed

section \<open>The scanner after an empty page\<close>

text \<open>
  With an empty buffer \<open>Scan\<close> always fetches: the scanner does not record that the
  last page was empty. With the cursor back at 0 it then returns true as soon as a
  live key matches the pattern, whatever path the store takes through the table.
\<close>

lemma Scan_empty_buffer_fetches:
  assumes "Scanner.keys sc = []"
  shows "nstmt (snd (snd (Scanner_Scan g path sc s t))) = Suc (nstmt s)"
  using assms by (simp add: Scanner_Scan_def Tx_Scan_def Let_def)

lemma Scan_empty_buffer_restarts:
  assumes "Scanner.keys sc = []" and "cursor sc = 0"
    and "set (path (rkey s)) = set (rkey s)"
    and "k \<in> set (rkey s)" and "0 < ID k" and "live (UnixMilli t) k"
    and "glob (pattern sc) (Key k)"
  shows "fst (Scanner_Scan glob path sc s t)"
proof -
  define n' where "n' = (if pageSize sc = 0 then scanPageSize else pageSize sc)"
  define m where
    "m = filter (\<lambda>k. 0 < ID k \<and> glob (pattern sc) (Key k) \<and> live (UnixMilli t) k)
           (path (rkey s))"
  have "k \<in> set m" using assms(3-7) by (simp add: m_def)
  then have "m \<noteq> []" by auto
  moreover have "n' \<noteq> 0" by (simp add: n'_def scanPageSize_def)
  ultimately have "sql_limit n' m \<noteq> []" by (simp add: sql_limit_empty)
  then show ?thesis
    using assms(1,2)
    by (simp add: Scanner_Scan_def Tx_Scan_def sqlScan_def Let_def n'_def m_def)
qed

lemma ex_scan1_eq:
  "ex_scan1 = (True, \<lparr>cursor = 2, pattern = ''*'', pageSize = 10, index = 1, cur = ex_x,
                      keys = [ex_x, ex_s], err = None\<rparr>, stmt ex_store)"
  by (simp add: ex_scan1_def Scanner_Scan_def newScanner_def Tx_Scan_def scanPageSize_def
      ex_page_all Scanner_advance_def) (simp add: ex_x_def ex_s_def)

lemma ex_scan2_eq:
  "ex_scan2 = (True, \<lparr>cursor = 2, pattern = ''*'', pageSize = 10, index = 2, cur = ex_s,
                      keys = [ex_x, ex_s], err = None\<rparr>, stmt ex_store)"
  by (simp add: ex_scan2_def ex_scan1_eq Scanner_Scan_def Scanner_advance_def)

lemma sqlScan_stmt: "sqlScan g path (stmt s) c p now n = sqlScan g path s c p now n"
  by (simp add: sqlScan_def)

lemma ex_scan3_eq:
  "ex_scan3 = (False, \<lparr>cursor = 0, pattern = ''*'', pageSize = 10, index = 0, cur = ex_s,
                       keys = [], err = None\<rparr>, stmt (stmt ex_store))"
  by (simp add: ex_scan3_def ex_scan2_eq Scanner_Scan_def Tx_Scan_def sqlScan_stmt ex_page_end)

lemma ex_scan4_eq:
  "ex_scan4 = (True, \<lparr>cursor = 2, pattern = ''*'', pageSize = 10, index = 1, cur = ex_x,
                      keys = [ex_x, ex_s], err = None\<rparr>, stmt (stmt (stmt ex_store)))"
  by (simp add: ex_scan4_def ex_scan3_eq Scanner_Scan_def Tx_Scan_def sqlScan_stmt ex_page_all
      Scanner_advance_def) (simp add: ex_x_def ex_s_def)

text \<open>
  Claim C2. The claim has every call of \<open>Scan\<close> after an empty page return false
  without another fetch. On the example store the first two calls yield the two keys
  from one page, the third fetches an empty page, returns false and leaves the cursor
  at 0, the maximum over no key. The fourth call finds the buffer exhausted, executes a
  third statement, gets the first page again and returns true with the first key.
\<close>

theorem scanner_restarts_after_empty_page:
  "fst ex_scan1 = True \<and> fst ex_scan2 = True \<and>
   fst ex_scan3 = False \<and> Scanner.keys (fst (snd ex_scan3)) = [] \<and>
   cursor (fst (snd ex_scan3)) = 0 \<and> nstmt (snd (snd ex_scan3)) = 2 \<and>
   fst ex_scan4 = True \<and> cur (fst (snd ex_scan4)) = ex_x \<and>
   nstmt (snd (snd ex_scan4)) = 3"
  by (simp add: ex_scan1_eq ex_scan2_eq ex_scan3_eq ex_scan4_eq ex_store_def)

end
